theory Spec2Isabelle
  imports Main "HOL-Library.AList"
begin

section \<open>The live-poll session server (src/server.js)\<close>

text \<open>
  The server keeps one session in module-level variables and reacts to socket events.
  The model is a state record holding those variables, one function per event handler
  that returns the new state together with the list of effects the handler performed
  (in source order), and a \<open>step\<close> function that dispatches on the event.

  Conventions of the embedding:
  \<^item> A JavaScript \<open>Map\<close> is an association list with distinct keys in insertion order.
    \<open>Map.set\<close> is \<open>AList.update\<close> (it overwrites in place or appends at the end),
    \<open>Map.delete\<close> is \<open>AList.delete\<close>, \<open>Map.get\<close>/\<open>Map.has\<close> are \<open>map_of\<close>,
    \<open>Map.size\<close> is \<open>length\<close>.
  \<^item> Socket ids, question ids, names, answers and option labels are strings.
  \<^item> \<open>timeLimit\<close>/\<open>timeLeft\<close> are integers and \<open>questionNumber\<close> is a natural
    number: JavaScript numbers are taken in the range where they are exact integers.
  \<^item> The only floating-point computation, \<open>Math.round((count / totalAnswers) * 100)\<close>,
    is the function \<open>mathRoundPercent\<close>, which carries out the division and the
    multiplication in IEEE-754 double precision (round to nearest, ties to even). The
    functions that reach \<open>calculateResults\<close> take the rounding function as a parameter
    \<open>rnd\<close>; the server is the instance \<open>rnd = mathRoundPercent\<close>, and what is proved
    for every \<open>rnd\<close> holds for it.
  \<^item> \<open>setInterval\<close> returns a fresh handle; the set of intervals that the runtime
    still fires is the field \<open>intervals\<close>, and \<open>clearInterval\<close> removes a handle from
    it (without touching the variable \<open>questionTimer\<close>, as in the source).
\<close>

subsection \<open>Data\<close>

datatype role = Teacher | Student

record participant =
  name :: string
  role :: role

text \<open>The question object sent by the teacher: \<open>{id, text, options, timeLimit}\<close>.\<close>

record question =
  qid :: string
  qtext :: string
  qoptions :: "string list"
  qtimeLimit :: int

text \<open>\<open>currentQuestion = {...question, questionNumber: questionNumber}\<close>.\<close>

record numbered_question = question +
  qnumber :: nat

record result =
  option' :: string
  count :: nat
  percentage :: int

record poll_results =
  results :: "result list"
  pr_questionNumber :: nat
  pr_questionId :: string
  pr_questionText :: string

record answer_data =
  questionId :: string
  answer :: string
  studentName :: string

datatype message =
    ParticipantsUpdate "string list"
  | QuestionStatus bool
  | QuestionStarted numbered_question
  | TimeUpdate int
  | PollResults poll_results
  | QuestionError string
  | StudentKicked
  | ChatMessage string

text \<open>
  \<open>socket.emit\<close> goes to the socket of the handler, \<open>io.emit\<close> to everyone,
  \<open>io.to(r).emit\<close> to the room \<open>r\<close> (a room name or a socket id).
\<close>

datatype target = ToSocket string | ToAll | ToRoom string

datatype effect =
    Emit target message
  | JoinRoom string string
  | DisconnectSocket string

record state =
  currentQuestion :: "numbered_question option"
  participants :: "(string \<times> participant) list"
  answers :: "(string \<times> (string \<times> string) list) list"
  questionTimer :: "nat option"
  timeLeft :: int
  questionNumber :: nat
  questionHistory :: "(string \<times> nat) list"
  intervals :: "nat list"
  nextHandle :: nat

definition init :: state where
  "init = \<lparr>currentQuestion = None, participants = [], answers = [],
     questionTimer = None, timeLeft = 0, questionNumber = 0, questionHistory = [],
     intervals = [], nextHandle = 0\<rparr>"

subsection \<open>Math.round((count / totalAnswers) * 100) in double precision\<close>

text \<open>
  A positive double is written \<open>(m, e)\<close> for the value \<open>m * 2 ^ e\<close>, with
  \<open>2 ^ 52 \<le> m \<le> 2 ^ 53\<close>; zero is \<open>(0, 0)\<close>. \<open>doubleOfFraction a b\<close> is the double
  nearest to \<open>a / b\<close> for positive integers \<open>a\<close> and \<open>b\<close>, ties going to the even
  significand: the exponent is found from the bit lengths, the quotient is scaled into
  \<open>[2 ^ 52, 2 ^ 53)\<close> and rounded. The values that occur (counts and sizes below
  \<open>2 ^ 53\<close>, quotients in \<open>[2 ^ -53, 1]\<close>, products up to 100) are in the normal range
  of the format.
\<close>

function bitLength :: "int \<Rightarrow> nat" where
  "bitLength n = (if n \<le> 0 then 0 else Suc (bitLength (n div 2)))"
  by pat_completeness auto
termination
  by (relation "measure nat") auto

declare bitLength.simps [simp del]

definition roundHalfEven :: "int \<Rightarrow> int \<Rightarrow> int" where
  "roundHalfEven num den =
     (let m = num div den; r = num mod den
      in if 2 * r > den \<or> (2 * r = den \<and> odd m) then m + 1 else m)"

definition doubleOfFraction :: "int \<Rightarrow> int \<Rightarrow> int \<times> int" where
  "doubleOfFraction a b =
     (let e = int (bitLength a) - int (bitLength b) - 53;
          num = (if e \<ge> 0 then a else a * 2 ^ nat (- e));
          den = (if e \<ge> 0 then b * 2 ^ nat e else b)
      in if num \<ge> den * 2 ^ 53 then (roundHalfEven num (den * 2), e + 1)
         else (roundHalfEven num den, e))"

text \<open>
  \<open>count / totalAnswers\<close>, then \<open>* 100\<close>, each rounded to a double, then
  \<open>Math.round\<close>: the integer \<open>floor(x + 1/2)\<close> of the double \<open>x\<close>, computed exactly.
  The source evaluates the expression only when \<open>totalAnswers > 0\<close>.
\<close>

definition jsDivide :: "nat \<Rightarrow> nat \<Rightarrow> int \<times> int" where
  "jsDivide c t = (if c = 0 then (0, 0) else doubleOfFraction (int c) (int t))"

definition jsTimes100 :: "int \<times> int \<Rightarrow> int \<times> int" where
  "jsTimes100 x =
     (case x of (m, e) \<Rightarrow>
        if m = 0 then (0, 0)
        else if e \<ge> 0 then doubleOfFraction (m * 100 * 2 ^ nat e) 1
        else doubleOfFraction (m * 100) (2 ^ nat (- e)))"

definition mathRound :: "int \<times> int \<Rightarrow> int" where
  "mathRound x =
     (case x of (m, e) \<Rightarrow>
        if e \<ge> 0 then m * 2 ^ nat e
        else (2 * m + 2 ^ nat (- e)) div (2 * 2 ^ nat (- e)))"

definition mathRoundPercent :: "nat \<Rightarrow> nat \<Rightarrow> int" where
  "mathRoundPercent c t = mathRound (jsTimes100 (jsDivide c t))"

subsection \<open>calculateResults\<close>

text \<open>\<open>options.forEach((option) => answerCounts.set(option, 0))\<close>\<close>

definition initCounts :: "string list \<Rightarrow> (string \<times> nat) list" where
  "initCounts opts = foldl (\<lambda>m opt. AList.update opt 0 m) [] opts"

text \<open>
  \<open>for (const answer of questionAnswers.values())
       if (answerCounts.has(answer)) answerCounts.set(answer, answerCounts.get(answer) + 1)\<close>
\<close>

definition countAnswer :: "(string \<times> nat) list \<Rightarrow> string \<Rightarrow> (string \<times> nat) list" where
  "countAnswer m a = (case map_of m a of None \<Rightarrow> m | Some c \<Rightarrow> AList.update a (c + 1) m)"

definition countAnswers :: "(string \<times> nat) list \<Rightarrow> string list \<Rightarrow> (string \<times> nat) list" where
  "countAnswers m as = foldl countAnswer m as"

definition calculateResults ::
  "(nat \<Rightarrow> nat \<Rightarrow> int) \<Rightarrow> string list \<Rightarrow> (string \<times> string) list \<Rightarrow> result list" where
  "calculateResults rnd opts questionAnswers =
     (let answerCounts = countAnswers (initCounts opts) (map snd questionAnswers);
          totalAnswers = length questionAnswers
      in map (\<lambda>(opt, c). \<lparr>option' = opt, count = c,
                percentage = (if totalAnswers > 0 then rnd c totalAnswers else 0)\<rparr>)
             answerCounts)"

text \<open>
  The words of the specification: one record per option, in option order, the count being
  the number of answers equal to the option, the percentage being the count over the
  number of all answers, times 100, rounded by \<open>rnd\<close> (0 when there is no answer).
  The specification's \<open>round\<close> is \<open>halfUpPercent\<close> below; the source's
  \<open>Math.round\<close> on doubles is \<open>mathRoundPercent\<close>. \<open>firstOccurrences\<close> keeps each
  option at the place where it first occurs.
\<close>

definition firstOccurrences :: "string list \<Rightarrow> string list" where
  "firstOccurrences opts = rev (remdups (rev opts))"

definition aggregateSpec ::
  "(nat \<Rightarrow> nat \<Rightarrow> int) \<Rightarrow> string list \<Rightarrow> (string \<times> string) list \<Rightarrow> result list" where
  "aggregateSpec rnd opts questionAnswers =
     map (\<lambda>opt. \<lparr>option' = opt, count = count_list (map snd questionAnswers) opt,
            percentage = (if length questionAnswers > 0
                          then rnd (count_list (map snd questionAnswers) opt) (length questionAnswers)
                          else 0)\<rparr>) opts"

subsection \<open>Helpers of the handlers\<close>

text \<open>
  \<open>Array.from(participants.values()).filter((p) => p.role === "student").map((p) => p.name)\<close>
  and the \<open>.length\<close> of the same filter.
\<close>

definition studentList :: "state \<Rightarrow> string list" where
  "studentList s = map name (filter (\<lambda>p. role p = Student) (map snd (participants s)))"

definition totalStudents :: "state \<Rightarrow> nat" where
  "totalStudents s = length (filter (\<lambda>p. role p = Student) (map snd (participants s)))"

definition isQuestionComplete :: "state \<Rightarrow> bool" where
  "isQuestionComplete s =
     (case currentQuestion s of
        None \<Rightarrow> True
      | Some cq \<Rightarrow>
          (case map_of (answers s) (qid cq) of
             None \<Rightarrow> False
           | Some questionAnswers \<Rightarrow>
               length questionAnswers \<ge> totalStudents s \<or> timeLeft s \<le> 0))"

text \<open>\<open>if (questionTimer) clearInterval(questionTimer)\<close>; the variable keeps its value.\<close>

definition clearInterval :: "nat option \<Rightarrow> state \<Rightarrow> state" where
  "clearInterval t s =
     (case t of None \<Rightarrow> s | Some h \<Rightarrow> s\<lparr>intervals := removeAll h (intervals s)\<rparr>)"

definition endQuestion :: "(nat \<Rightarrow> nat \<Rightarrow> int) \<Rightarrow> state \<Rightarrow> state \<times> effect list" where
  "endQuestion rnd s =
     (case currentQuestion s of
        None \<Rightarrow> (s, [])
      | Some cq \<Rightarrow>
          (case map_of (answers s) (qid cq) of
             None \<Rightarrow> (s, [])
           | Some questionAnswers \<Rightarrow>
               (s\<lparr>currentQuestion := None, timeLeft := 0\<rparr>,
                [Emit ToAll (PollResults
                   \<lparr>results = calculateResults rnd (qoptions cq) questionAnswers,
                    pr_questionNumber = qnumber cq,
                    pr_questionId = qid cq,
                    pr_questionText = qtext cq\<rparr>),
                 Emit (ToRoom ''teachers'') (QuestionStatus True)])))"

subsection \<open>The event handlers\<close>

definition teacherJoin :: "string \<Rightarrow> state \<Rightarrow> state \<times> effect list" where
  "teacherJoin socketId s =
     (let s1 = s\<lparr>participants :=
                  AList.update socketId \<lparr>name = ''Teacher'', role = Teacher\<rparr> (participants s)\<rparr>
      in (s1, [JoinRoom socketId ''teachers'',
               Emit (ToSocket socketId) (ParticipantsUpdate (studentList s1)),
               Emit (ToSocket socketId)
                 (QuestionStatus (currentQuestion s1 = None \<or> isQuestionComplete s1))]))"

definition studentJoin :: "string \<Rightarrow> string \<Rightarrow> state \<Rightarrow> state \<times> effect list" where
  "studentJoin socketId studentName' s =
     (let s1 = s\<lparr>participants :=
                  AList.update socketId \<lparr>name = studentName', role = Student\<rparr> (participants s)\<rparr>
      in (s1, [JoinRoom socketId ''students'',
               Emit ToAll (ParticipantsUpdate (studentList s1))] @
              (case currentQuestion s1 of
                 None \<Rightarrow> []
               | Some cq \<Rightarrow> [Emit (ToSocket socketId) (QuestionStarted cq),
                             Emit (ToSocket socketId) (TimeUpdate (timeLeft s1))])))"

definition questionErrorMessage :: string where
  "questionErrorMessage =
     ''Cannot ask a new question while the current question is still active. '' @
     ''Please wait for all students to answer or for the timer to expire.''"

text \<open>\<open>{...question, questionNumber: n}\<close>\<close>

definition numbered :: "question \<Rightarrow> nat \<Rightarrow> numbered_question" where
  "numbered q n = \<lparr>qid = qid q, qtext = qtext q, qoptions = qoptions q,
                   qtimeLimit = qtimeLimit q, qnumber = n\<rparr>"

definition startQuestion :: "string \<Rightarrow> question \<Rightarrow> state \<Rightarrow> state \<times> effect list" where
  "startQuestion socketId q s =
     (if currentQuestion s \<noteq> None \<and> \<not> isQuestionComplete s
      then (s, [Emit (ToSocket socketId) (QuestionError questionErrorMessage)])
      else
        (let n = questionNumber s + 1;
             cq = numbered q n;
             s1 = s\<lparr>questionNumber := n,
                    questionHistory := AList.update (qid q) n (questionHistory s),
                    currentQuestion := Some cq,
                    answers := AList.update (qid q) [] (answers s),
                    timeLeft := qtimeLimit q\<rparr>;
             s2 = clearInterval (questionTimer s1) s1;
             h = nextHandle s2;
             s3 = s2\<lparr>questionTimer := Some h, intervals := intervals s2 @ [h],
                     nextHandle := h + 1\<rparr>
         in (s3, [Emit (ToRoom ''students'') (QuestionStarted cq),
                  Emit ToAll (TimeUpdate (timeLeft s3)),
                  Emit (ToRoom ''teachers'') (QuestionStatus False)])))"

text \<open>
  The callback given to \<open>setInterval\<close>. The runtime calls it for a handle only while that
  handle is among the active intervals; the callback reads the module variables, so it
  clears whatever handle \<open>questionTimer\<close> holds at that moment.
\<close>

definition timerTick :: "(nat \<Rightarrow> nat \<Rightarrow> int) \<Rightarrow> nat \<Rightarrow> state \<Rightarrow> state \<times> effect list" where
  "timerTick rnd h s =
     (if h \<notin> set (intervals s) then (s, [])
      else
        (let s1 = s\<lparr>timeLeft := timeLeft s - 1\<rparr>;
             out1 = [Emit ToAll (TimeUpdate (timeLeft s1))]
         in if timeLeft s1 \<le> 0
            then (let (s2, out2) = endQuestion rnd (clearInterval (questionTimer s1) s1)
                  in (s2, out1 @ out2))
            else (s1, out1)))"

definition submitAnswer ::
  "(nat \<Rightarrow> nat \<Rightarrow> int) \<Rightarrow> answer_data \<Rightarrow> state \<Rightarrow> state \<times> effect list" where
  "submitAnswer rnd d s =
     (case currentQuestion s of
        None \<Rightarrow> (s, [])
      | Some cq \<Rightarrow>
          if qid cq \<noteq> questionId d then (s, [])
          else
            (case map_of (answers s) (questionId d) of
               None \<Rightarrow> (s, [])
             | Some questionAnswers \<Rightarrow>
                 if map_of questionAnswers (studentName d) \<noteq> None then (s, [])
                 else
                   (let questionAnswers' =
                          AList.update (studentName d) (answer d) questionAnswers;
                        s1 = s\<lparr>answers :=
                                 AList.update (questionId d) questionAnswers' (answers s)\<rparr>
                    in if length questionAnswers' \<ge> totalStudents s1
                       then endQuestion rnd (clearInterval (questionTimer s1) s1)
                       else (s1, []))))"

definition chatMessage :: "string \<Rightarrow> state \<Rightarrow> state \<times> effect list" where
  "chatMessage payload s = (s, [Emit ToAll (ChatMessage payload)])"

text \<open>
  The loop over \<open>participants.entries()\<close> stops at the first entry whose name and role
  match (\<open>break\<close>); \<open>io.sockets.sockets.get(socketId)?.disconnect()\<close> is the effect
  \<open>DisconnectSocket\<close>, carried out by the socket library.
\<close>

definition kickStudent :: "string \<Rightarrow> state \<Rightarrow> state \<times> effect list" where
  "kickStudent studentName' s =
     (case find (\<lambda>(socketId, p). name p = studentName' \<and> role p = Student) (participants s) of
        None \<Rightarrow> (s, [])
      | Some (socketId, p) \<Rightarrow>
          (let s1 = s\<lparr>participants := AList.delete socketId (participants s)\<rparr>
           in (s1, [Emit (ToRoom socketId) StudentKicked,
                    Emit ToAll (ParticipantsUpdate (studentList s1)),
                    DisconnectSocket socketId])))"

definition disconnect :: "string \<Rightarrow> state \<Rightarrow> state \<times> effect list" where
  "disconnect socketId s =
     (let s1 = s\<lparr>participants := AList.delete socketId (participants s)\<rparr>
      in (s1, [Emit ToAll (ParticipantsUpdate (studentList s1))]))"

subsection \<open>Events, steps and runs\<close>

datatype event =
    TeacherJoin string
  | StudentJoin string string
  | StartQuestion string question
  | SubmitAnswer string answer_data
  | ChatMessageEv string string
  | KickStudent string string
  | Disconnect string
  | TimerTick nat

fun step :: "(nat \<Rightarrow> nat \<Rightarrow> int) \<Rightarrow> state \<Rightarrow> event \<Rightarrow> state \<times> effect list" where
  "step rnd s (TeacherJoin socketId) = teacherJoin socketId s"
| "step rnd s (StudentJoin socketId studentName') = studentJoin socketId studentName' s"
| "step rnd s (StartQuestion socketId q) = startQuestion socketId q s"
| "step rnd s (SubmitAnswer socketId d) = submitAnswer rnd d s"
| "step rnd s (ChatMessageEv socketId payload) = chatMessage payload s"
| "step rnd s (KickStudent socketId studentName') = kickStudent studentName' s"
| "step rnd s (Disconnect socketId) = disconnect socketId s"
| "step rnd s (TimerTick h) = timerTick rnd h s"

fun run :: "(nat \<Rightarrow> nat \<Rightarrow> int) \<Rightarrow> state \<Rightarrow> event list \<Rightarrow> state \<times> effect list" where
  "run rnd s [] = (s, [])"
| "run rnd s (e # es) =
     (let (s1, out1) = step rnd s e; (s2, out2) = run rnd s1 es in (s2, out1 @ out2))"

inductive reachable :: "(nat \<Rightarrow> nat \<Rightarrow> int) \<Rightarrow> state \<Rightarrow> bool" for rnd where
  reachable_init: "reachable rnd init"
| reachable_step: "reachable rnd s \<Longrightarrow> reachable rnd (fst (step rnd s e))"

text \<open>The \<open>pollResults\<close> payloads among a list of effects, and their sequence numbers.\<close>

fun pollResultsOf :: "effect list \<Rightarrow> poll_results list" where
  "pollResultsOf [] = []"
| "pollResultsOf (Emit t (PollResults r) # out) = r # pollResultsOf out"
| "pollResultsOf (e # out) = pollResultsOf out"

definition pollNumbers :: "effect list \<Rightarrow> nat list" where
  "pollNumbers out = map pr_questionNumber (pollResultsOf out)"

text \<open>
  The payload that \<open>endQuestion\<close> builds for a question and an answer map, and the two
  notifications it emits.
\<close>

definition pollOf ::
  "(nat \<Rightarrow> nat \<Rightarrow> int) \<Rightarrow> numbered_question \<Rightarrow> (string \<times> string) list \<Rightarrow> poll_results" where
  "pollOf rnd cq questionAnswers =
     \<lparr>results = calculateResults rnd (qoptions cq) questionAnswers,
      pr_questionNumber = qnumber cq,
      pr_questionId = qid cq,
      pr_questionText = qtext cq\<rparr>"

definition closing ::
  "(nat \<Rightarrow> nat \<Rightarrow> int) \<Rightarrow> numbered_question \<Rightarrow> (string \<times> string) list \<Rightarrow> effect list" where
  "closing rnd cq questionAnswers =
     [Emit ToAll (PollResults (pollOf rnd cq questionAnswers)),
      Emit (ToRoom ''teachers'') (QuestionStatus True)]"

text \<open>Kinds of events, for statements about runs.\<close>

fun startsId :: "string \<Rightarrow> event \<Rightarrow> bool" where
  "startsId k (StartQuestion socketId q) = (qid q = k)"
| "startsId k e = False"

fun submissionsOf :: "event list \<Rightarrow> answer_data list" where
  "submissionsOf [] = []"
| "submissionsOf (SubmitAnswer socketId d # es) = d # submissionsOf es"
| "submissionsOf (e # es) = submissionsOf es"

fun ticksOf :: "event list \<Rightarrow> nat list" where
  "ticksOf [] = []"
| "ticksOf (TimerTick h # es) = h # ticksOf es"
| "ticksOf (e # es) = ticksOf es"

fun isSubmitOrTick :: "event \<Rightarrow> bool" where
  "isSubmitOrTick (SubmitAnswer socketId d) = True"
| "isSubmitOrTick (TimerTick h) = True"
| "isSubmitOrTick e = False"

text \<open>
  Bookkeeping for the fate of started questions along a run: the number of the open
  question (if any), and the numbers of the questions that a permitted \<open>startQuestion\<close>
  overwrote while they were still the current question.
\<close>

definition openNumber :: "state \<Rightarrow> nat list" where
  "openNumber s = (case currentQuestion s of None \<Rightarrow> [] | Some cq \<Rightarrow> [qnumber cq])"

fun replacedBy :: "state \<Rightarrow> event \<Rightarrow> nat list" where
  "replacedBy s (StartQuestion socketId q) =
     (if isQuestionComplete s then openNumber s else [])"
| "replacedBy s e = []"

fun replacedNumbers :: "(nat \<Rightarrow> nat \<Rightarrow> int) \<Rightarrow> state \<Rightarrow> event list \<Rightarrow> nat list" where
  "replacedNumbers rnd s [] = []"
| "replacedNumbers rnd s (e # es) = replacedBy s e @ replacedNumbers rnd (fst (step rnd s e)) es"

text \<open>
  What holds of the module variables whenever a handler is entered: the open question has
  its answer map and carries the current question number, exactly the interval held by
  \<open>questionTimer\<close> is active while a question is open and none otherwise, and the keys of
  the participant map are distinct (it is a \<open>Map\<close>).
\<close>

definition inv :: "state \<Rightarrow> bool" where
  "inv s =
     ((case currentQuestion s of
         None \<Rightarrow> intervals s = []
       | Some cq \<Rightarrow> map_of (answers s) (qid cq) \<noteq> None \<and> qnumber cq = questionNumber s \<and>
                   (case questionTimer s of None \<Rightarrow> False | Some h \<Rightarrow> intervals s = [h])) \<and>
      distinct (map fst (participants s)))"

subsection \<open>Example data\<close>

text \<open>
  Rounding in exact arithmetic: the integer nearest to \<open>100 * c / t\<close>, ties upwards.
  The examples of the handlers use it as the instance of \<open>rnd\<close>, at percentages (0, 50
  and 100) where \<open>mathRoundPercent\<close> has the same value.
\<close>

definition halfUpPercent :: "nat \<Rightarrow> nat \<Rightarrow> int" where
  "halfUpPercent c t = (200 * int c + int t) div (2 * int t)"

definition question1 :: question where
  "question1 = \<lparr>qid = ''q1'', qtext = ''Pick one'', qoptions = [''A'', ''B''], qtimeLimit = 5\<rparr>"

definition question2 :: question where
  "question2 = \<lparr>qid = ''q2'', qtext = ''Pick again'', qoptions = [''A'', ''B''], qtimeLimit = 5\<rparr>"

text \<open>
  Two students, Alice and Bob, and the first question just started; then Alice has
  answered \<open>A\<close>. Mallory never joins.
\<close>

definition twoStudentsOpen :: state where
  "twoStudentsOpen = fst (run halfUpPercent init
     [StudentJoin ''s1'' ''Alice'', StudentJoin ''s2'' ''Bob'', StartQuestion ''t'' question1])"

definition aliceA :: answer_data where
  "aliceA = \<lparr>questionId = ''q1'', answer = ''A'', studentName = ''Alice''\<rparr>"

definition aliceB :: answer_data where
  "aliceB = \<lparr>questionId = ''q1'', answer = ''B'', studentName = ''Alice''\<rparr>"

definition bobB :: answer_data where
  "bobB = \<lparr>questionId = ''q1'', answer = ''B'', studentName = ''Bob''\<rparr>"

definition malloryA :: answer_data where
  "malloryA = \<lparr>questionId = ''q1'', answer = ''A'', studentName = ''Mallory''\<rparr>"

definition aliceAnswered :: state where
  "aliceAnswered = fst (run halfUpPercent twoStudentsOpen [SubmitAnswer ''s1'' aliceA])"

text \<open>Nobody has joined and the first question has just been started.\<close>

definition emptyRoomOpen :: state where
  "emptyRoomOpen = fst (run halfUpPercent init [StartQuestion ''t'' question1])"

text \<open>
  Alice joins, the first question is started, and Alice is removed before she answers:
  the question is open, no student is left, and the question counts as complete.
\<close>

definition aliceKicked :: state where
  "aliceKicked = fst (run halfUpPercent init
     [StudentJoin ''s1'' ''Alice'', StartQuestion ''t'' question1, KickStudent ''t'' ''Alice''])"

text \<open>
  Two more submissions: Mallory, still in no roster, answers the second question, and
  Carol answers the first.
\<close>

definition malloryQ2 :: answer_data where
  "malloryQ2 = \<lparr>questionId = ''q2'', answer = ''B'', studentName = ''Mallory''\<rparr>"

definition carolB :: answer_data where
  "carolB = \<lparr>questionId = ''q1'', answer = ''B'', studentName = ''Carol''\<rparr>"

text \<open>
  Forty students \<open>s01\<close> to \<open>s40\<close>: the first 23 have answered \<open>A\<close>, the other 17
  \<open>B\<close>.
\<close>

definition answers40 :: "(string \<times> string) list" where
  "answers40 =
     [(''s01'', ''A''), (''s02'', ''A''), (''s03'', ''A''), (''s04'', ''A''), (''s05'', ''A''),
      (''s06'', ''A''), (''s07'', ''A''), (''s08'', ''A''), (''s09'', ''A''), (''s10'', ''A''),
      (''s11'', ''A''), (''s12'', ''A''), (''s13'', ''A''), (''s14'', ''A''), (''s15'', ''A''),
      (''s16'', ''A''), (''s17'', ''A''), (''s18'', ''A''), (''s19'', ''A''), (''s20'', ''A''),
      (''s21'', ''A''), (''s22'', ''A''), (''s23'', ''A''), (''s24'', ''B''), (''s25'', ''B''),
      (''s26'', ''B''), (''s27'', ''B''), (''s28'', ''B''), (''s29'', ''B''), (''s30'', ''B''),
      (''s31'', ''B''), (''s32'', ''B''), (''s33'', ''B''), (''s34'', ''B''), (''s35'', ''B''),
      (''s36'', ''B''), (''s37'', ''B''), (''s38'', ''B''), (''s39'', ''B''), (''s40'', ''B'')]"

subsection \<open>Facts about calculateResults\<close>

lemma update_zero_map:
  "AList.update x (0::nat) (map (\<lambda>k. (k, 0)) ys) =
     (if x \<in> set ys then map (\<lambda>k. (k, 0)) ys else map (\<lambda>k. (k, 0)) ys @ [(x, 0)])"
  by (induction ys) auto

lemma firstOccurrences_snoc:
  "firstOccurrences (xs @ [x]) =
     (if x \<in> set xs then firstOccurrences xs else firstOccurrences xs @ [x])"
  by (simp add: firstOccurrences_def)

lemma set_firstOccurrences: "set (firstOccurrences xs) = set xs"
  by (simp add: firstOccurrences_def)

lemma distinct_firstOccurrences: "distinct (firstOccurrences xs)"
  by (simp add: firstOccurrences_def)

lemma firstOccurrences_distinct: "distinct xs \<Longrightarrow> firstOccurrences xs = xs"
  by (simp add: firstOccurrences_def distinct_remdups_id)

lemma initCounts_eq: "initCounts opts = map (\<lambda>k. (k, 0)) (firstOccurrences opts)"
proof (induction opts rule: rev_induct)
  case Nil
  show ?case by (simp add: initCounts_def firstOccurrences_def)
next
  case (snoc x xs)
  have "initCounts (xs @ [x]) = AList.update x 0 (initCounts xs)"
    by (simp add: initCounts_def)
  also have "\<dots> = AList.update x 0 (map (\<lambda>k. (k, 0)) (firstOccurrences xs))"
    by (simp add: snoc.IH)
  finally show ?case
    by (simp add: update_zero_map firstOccurrences_snoc set_firstOccurrences)
qed

lemma map_of_tabulate:
  "map_of (map (\<lambda>k. (k, c k)) ks) a = (if a \<in> set ks then Some (c a) else None)"
  by (induction ks) auto

lemma update_tabulate:
  "distinct ks \<Longrightarrow> a \<in> set ks \<Longrightarrow>
   AList.update a v (map (\<lambda>k. (k, c k)) ks) = map (\<lambda>k. (k, (c(a := v)) k)) ks"
  by (induction ks) auto

lemma countAnswer_tabulate:
  "distinct ks \<Longrightarrow> countAnswer (map (\<lambda>k. (k, c k)) ks) a =
     map (\<lambda>k. (k, (if k = a then c k + 1 else c k))) ks"
proof (cases "a \<in> set ks")
  case True
  assume "distinct ks"
  with True show ?thesis
    by (simp add: countAnswer_def map_of_tabulate update_tabulate fun_upd_def)
next
  case False
  then have "map (\<lambda>k. (k, (if k = a then c k + 1 else c k))) ks = map (\<lambda>k. (k, c k)) ks"
    by (intro map_cong) auto
  with False show ?thesis
    by (simp add: countAnswer_def map_of_tabulate)
qed

lemma countAnswers_tabulate:
  "distinct ks \<Longrightarrow> countAnswers (map (\<lambda>k. (k, c k)) ks) as = map (\<lambda>k. (k, c k + count_list as k)) ks"
proof (induction as arbitrary: c)
  case Nil
  show ?case by (simp add: countAnswers_def)
next
  case (Cons a as)
  have "countAnswers (map (\<lambda>k. (k, c k)) ks) (a # as) =
        countAnswers (map (\<lambda>k. (k, (if k = a then c k + 1 else c k))) ks) as"
    using Cons.prems by (simp add: countAnswers_def countAnswer_tabulate)
  also have "\<dots> = map (\<lambda>k. (k, (if k = a then c k + 1 else c k) + count_list as k)) ks"
    by (rule Cons.IH [OF Cons.prems])
  also have "\<dots> = map (\<lambda>k. (k, c k + count_list (a # as) k)) ks"
    by (intro map_cong) auto
  finally show ?case .
qed

lemma calculateResults_eq:
  "calculateResults rnd opts qa = aggregateSpec rnd (firstOccurrences opts) qa"
proof -
  have "countAnswers (initCounts opts) (map snd qa) =
        map (\<lambda>k. (k, 0 + count_list (map snd qa) k)) (firstOccurrences opts)"
    unfolding initCounts_eq by (rule countAnswers_tabulate [OF distinct_firstOccurrences])
  then show ?thesis
    by (simp add: calculateResults_def aggregateSpec_def Let_def comp_def)
qed

subsection \<open>Unfolding the handlers\<close>

lemma numbered_simps [simp]:
  "qid (numbered q n) = qid q" "qtext (numbered q n) = qtext q"
  "qoptions (numbered q n) = qoptions q" "qtimeLimit (numbered q n) = qtimeLimit q"
  "qnumber (numbered q n) = n"
  by (simp_all add: numbered_def)

lemmas handler_defs =
  init_def teacherJoin_def studentJoin_def startQuestion_def submitAnswer_def chatMessage_def
  kickStudent_def disconnect_def timerTick_def endQuestion_def clearInterval_def
  isQuestionComplete_def totalStudents_def studentList_def Let_def

subsection \<open>The invariant of the module variables\<close>

text \<open>Every handler preserves \<open>inv\<close>, so it holds in every reachable state.\<close>

lemma inv_init: "inv init"
  by (simp add: inv_def init_def)

lemma inv_teacherJoin: "inv s \<Longrightarrow> inv (fst (teacherJoin socketId s))"
  by (auto simp: inv_def teacherJoin_def Let_def distinct_update split: option.splits)

lemma inv_studentJoin: "inv s \<Longrightarrow> inv (fst (studentJoin socketId n s))"
  by (auto simp: inv_def studentJoin_def Let_def distinct_update split: option.splits)

lemma inv_disconnect: "inv s \<Longrightarrow> inv (fst (disconnect socketId s))"
  by (auto simp: inv_def disconnect_def Let_def distinct_delete split: option.splits)

lemma inv_kickStudent: "inv s \<Longrightarrow> inv (fst (kickStudent n s))"
  by (auto simp: inv_def kickStudent_def Let_def distinct_delete split: option.splits)

lemma inv_chatMessage: "inv s \<Longrightarrow> inv (fst (chatMessage n s))"
  by (auto simp: inv_def chatMessage_def)

lemma inv_startQuestion: "inv s \<Longrightarrow> inv (fst (startQuestion socketId q s))"
  by (auto simp: inv_def startQuestion_def Let_def clearInterval_def update_conv' split: option.splits)

lemma inv_submitAnswer: "inv s \<Longrightarrow> inv (fst (submitAnswer rnd d s))"
  by (auto simp: inv_def submitAnswer_def endQuestion_def Let_def clearInterval_def update_conv' split: option.splits)

lemma inv_timerTick: "inv s \<Longrightarrow> inv (fst (timerTick rnd h s))"
  by (auto simp: inv_def timerTick_def endQuestion_def Let_def clearInterval_def split: option.splits)

lemma inv_step: "inv s \<Longrightarrow> inv (fst (step rnd s e))"
  by (cases e) (simp_all add: inv_teacherJoin inv_studentJoin inv_disconnect inv_kickStudent
      inv_chatMessage inv_startQuestion inv_submitAnswer inv_timerTick)

lemma reachable_inv: "reachable rnd s \<Longrightarrow> inv s"
  by (induction rule: reachable.induct) (simp_all add: inv_init inv_step)

subsection \<open>C4: the result aggregator\<close>

lemma mathRoundPercent_values:
  "mathRoundPercent 23 40 = 57" "mathRoundPercent 17 40 = 43"
  "mathRoundPercent 1 2 = 50" "mathRoundPercent 0 2 = 0"
  "mathRoundPercent 1 3 = 33" "mathRoundPercent 2 3 = 67" "mathRoundPercent 29 200 = 14"
  by code_simp+

lemma mathRoundPercent_zero [simp]: "mathRoundPercent 0 t = 0"
  by (simp add: mathRoundPercent_def jsDivide_def jsTimes100_def mathRound_def)

lemma mathRoundPercent_small:
  "mathRoundPercent (Suc 0) (Suc 0) = 100" "mathRoundPercent (Suc 0) (Suc (Suc 0)) = 50"
  by code_simp+

lemma halfUpPercent_values:
  "halfUpPercent 23 40 = 58" "halfUpPercent 17 40 = 43"
  by (simp_all add: halfUpPercent_def)

lemma answers40_counts:
  "count_list (map snd answers40) ''A'' = 23" "count_list (map snd answers40) ''B'' = 17"
  "length answers40 = 40"
  by (simp_all add: answers40_def)

text \<open>
  C4, as stated: for every option list, \<open>calculateResults\<close> returns one record per
  option, in the original option order, with the percentage
  \<open>round(count / totalAnswers * 100)\<close>. This fails in two ways. The counts are kept in
  a \<open>Map\<close> keyed by the option, so the option list \<open>["A", "A"]\<close> yields a single
  record. And the percentage is computed in double precision: when 23 of 40 students have
  answered \<open>A\<close>, the quotient 23/40 is not a double, the product with 100 falls just
  below 57.5, and the source reports 57 where rounding 57.5 gives 58.
\<close>

theorem calculateResults_duplicate_options:
  "map option' (calculateResults mathRoundPercent [''A'', ''A''] []) \<noteq> [''A'', ''A''] \<and>
   distinct (map fst answers40) \<and>
   calculateResults mathRoundPercent [''A'', ''B''] answers40 =
     [\<lparr>option' = ''A'', count = 23, percentage = 57\<rparr>,
      \<lparr>option' = ''B'', count = 17, percentage = 43\<rparr>] \<and>
   aggregateSpec halfUpPercent [''A'', ''B''] answers40 =
     [\<lparr>option' = ''A'', count = 23, percentage = 58\<rparr>,
      \<lparr>option' = ''B'', count = 17, percentage = 43\<rparr>]"
proof -
  have a: "map option' (calculateResults mathRoundPercent [''A'', ''A''] []) \<noteq> [''A'', ''A'']"
    by (simp add: calculateResults_def initCounts_def countAnswers_def)
  have b: "distinct (map fst answers40)"
    by (simp add: answers40_def)
  have c: "calculateResults mathRoundPercent [''A'', ''B''] answers40 =
     [\<lparr>option' = ''A'', count = 23, percentage = 57\<rparr>,
      \<lparr>option' = ''B'', count = 17, percentage = 43\<rparr>]"
    by (simp add: calculateResults_eq aggregateSpec_def firstOccurrences_def answers40_counts
          mathRoundPercent_values)
  have d: "aggregateSpec halfUpPercent [''A'', ''B''] answers40 =
     [\<lparr>option' = ''A'', count = 23, percentage = 58\<rparr>,
      \<lparr>option' = ''B'', count = 17, percentage = 43\<rparr>]"
    by (simp add: aggregateSpec_def answers40_counts halfUpPercent_values)
  from a b c d show ?thesis by blast
qed

text \<open>
  C4, amended: for every option list and every answer map, \<open>calculateResults\<close> returns
  one record per distinct option, in the order of first occurrence (so for an option list
  without repetition: one record per option, in the original order). The count of an
  option is the number of answers equal to it; answers that match no option are counted
  nowhere but are part of the denominator \<open>totalAnswers = answers.size\<close>; the percentage
  is \<open>Math.round((count / totalAnswers) * 100)\<close> as double-precision arithmetic
  evaluates it when \<open>totalAnswers > 0\<close>, and 0 for every option otherwise.
\<close>

theorem calculateResults_records:
  "calculateResults mathRoundPercent opts qa =
     map (\<lambda>opt. \<lparr>option' = opt, count = count_list (map snd qa) opt,
            percentage = (if length qa > 0
                          then mathRoundPercent (count_list (map snd qa) opt) (length qa)
                          else 0)\<rparr>)
       (firstOccurrences opts) \<and>
   (distinct opts \<longrightarrow> firstOccurrences opts = opts)"
  by (simp add: calculateResults_eq aggregateSpec_def firstOccurrences_distinct)

theorem calculateResults_records_witness:
  "distinct [''A'', ''B''] \<and>
   calculateResults mathRoundPercent [''A'', ''B''] [(''Alice'', ''A''), (''Bob'', ''C'')] =
     [\<lparr>option' = ''A'', count = 1, percentage = 50\<rparr>,
      \<lparr>option' = ''B'', count = 0, percentage = 0\<rparr>] \<and>
   calculateResults mathRoundPercent [''A'', ''B''] answers40 =
     [\<lparr>option' = ''A'', count = 23, percentage = 57\<rparr>,
      \<lparr>option' = ''B'', count = 17, percentage = 43\<rparr>] \<and>
   calculateResults mathRoundPercent [''A'', ''B''] [] =
     [\<lparr>option' = ''A'', count = 0, percentage = 0\<rparr>,
      \<lparr>option' = ''B'', count = 0, percentage = 0\<rparr>]"
proof -
  have d: "distinct [''A'', ''B'']" by simp
  have f: "firstOccurrences [''A'', ''B''] = [''A'', ''B'']"
    using calculateResults_records [of "[''A'', ''B'']"] d by blast
  note t = calculateResults_records [THEN conjunct1, of "[''A'', ''B'']", unfolded f]
  show ?thesis
    by (simp add: t answers40_counts mathRoundPercent_values mathRoundPercent_small)
qed

subsection \<open>Runs and starting a question\<close>

lemma reachable_run: "reachable rnd s \<Longrightarrow> reachable rnd (fst (run rnd s es))"
proof (induction es arbitrary: s)
  case Nil
  then show ?case by simp
next
  case (Cons e es)
  have "reachable rnd (fst (step rnd s e))"
    using Cons.prems by (rule reachable_step)
  then have "reachable rnd (fst (run rnd (fst (step rnd s e)) es))"
    by (rule Cons.IH)
  then show ?case
    by (simp add: split_beta Let_def)
qed

lemma startQuestion_success:
  assumes "currentQuestion s = None \<or> isQuestionComplete s"
  shows "startQuestion socketId q s =
     (s\<lparr>questionNumber := questionNumber s + 1,
        questionHistory := AList.update (qid q) (questionNumber s + 1) (questionHistory s),
        currentQuestion := Some (numbered q (questionNumber s + 1)),
        answers := AList.update (qid q) [] (answers s),
        timeLeft := qtimeLimit q,
        questionTimer := Some (nextHandle s),
        intervals := (case questionTimer s of None \<Rightarrow> intervals s
                      | Some h \<Rightarrow> removeAll h (intervals s)) @ [nextHandle s],
        nextHandle := nextHandle s + 1\<rparr>,
      [Emit (ToRoom ''students'') (QuestionStarted (numbered q (questionNumber s + 1))),
       Emit ToAll (TimeUpdate (qtimeLimit q)),
       Emit (ToRoom ''teachers'') (QuestionStatus False)])"
  using assms
  by (auto simp: startQuestion_def Let_def clearInterval_def split: option.splits)

lemma inv_intervals_cleared:
  "inv s \<Longrightarrow> (case questionTimer s of None \<Rightarrow> intervals s | Some h \<Rightarrow> removeAll h (intervals s)) = []"
  by (auto simp: inv_def split: option.splits)

lemma questionNumber_step: "questionNumber s \<le> questionNumber (fst (step rnd s e))"
  by (cases e)
     (auto simp: teacherJoin_def studentJoin_def startQuestion_def submitAnswer_def
        chatMessage_def kickStudent_def disconnect_def timerTick_def endQuestion_def
        clearInterval_def Let_def split: option.splits)

lemma questionNumber_run: "questionNumber s \<le> questionNumber (fst (run rnd s es))"
proof (induction es arbitrary: s)
  case Nil
  show ?case by simp
next
  case (Cons e es)
  have "questionNumber s \<le> questionNumber (fst (step rnd s e))"
    by (rule questionNumber_step)
  also have "\<dots> \<le> questionNumber (fst (run rnd (fst (step rnd s e)) es))"
    by (rule Cons.IH)
  finally show ?case
    by (simp add: split_beta Let_def)
qed

subsection \<open>submitAnswer\<close>

lemma update_absent: "map_of al k = None \<Longrightarrow> AList.update k v al = al @ [(k, v)]"
  by (induction al) (auto split: if_splits)

lemma submitAnswer_ignored:
  assumes "currentQuestion s = None \<or>
           (\<exists>cq. currentQuestion s = Some cq \<and> qid cq \<noteq> questionId d) \<or>
           map_of (answers s) (questionId d) = None \<or>
           (\<exists>qa. map_of (answers s) (questionId d) = Some qa \<and> map_of qa (studentName d) \<noteq> None)"
  shows "submitAnswer rnd d s = (s, [])"
  using assms by (auto simp: submitAnswer_def split: option.splits)

lemma submitAnswer_accepted:
  assumes "currentQuestion s = Some cq" and "qid cq = questionId d"
    and "map_of (answers s) (questionId d) = Some qa" and "map_of qa (studentName d) = None"
  shows "submitAnswer rnd d s =
     (if totalStudents s \<le> length qa + 1
      then (s\<lparr>answers := AList.update (questionId d) (qa @ [(studentName d, answer d)]) (answers s),
              intervals := (case questionTimer s of None \<Rightarrow> intervals s
                            | Some h \<Rightarrow> removeAll h (intervals s)),
              currentQuestion := None, timeLeft := 0\<rparr>,
            closing rnd cq (qa @ [(studentName d, answer d)]))
      else (s\<lparr>answers := AList.update (questionId d) (qa @ [(studentName d, answer d)]) (answers s)\<rparr>,
            []))"
  using assms
  by (auto simp: submitAnswer_def endQuestion_def clearInterval_def totalStudents_def Let_def
        update_absent update_conv' closing_def pollOf_def split: option.splits)

lemma answers_submitAnswer:
  "answers (fst (submitAnswer rnd d s)) = answers s \<or>
   (\<exists>qa. map_of (answers s) (questionId d) = Some qa \<and> map_of qa (studentName d) = None \<and>
      answers (fst (submitAnswer rnd d s)) =
        AList.update (questionId d) (qa @ [(studentName d, answer d)]) (answers s))"
  by (auto simp: submitAnswer_def endQuestion_def clearInterval_def Let_def
        update_absent update_conv' split: option.splits)

lemma entry_kept_submitAnswer:
  assumes "map_of (answers s) k = Some qa" and "map_of qa n = Some a"
  shows "\<exists>qa'. map_of (answers (fst (submitAnswer rnd d s))) k = Some qa' \<and> map_of qa' n = Some a"
  using answers_submitAnswer [of rnd d s] assms
  by (auto simp: update_conv')

lemma entry_kept_step:
  assumes "\<not> startsId k e" and "map_of (answers s) k = Some qa" and "map_of qa n = Some a"
  shows "\<exists>qa'. map_of (answers (fst (step rnd s e))) k = Some qa' \<and> map_of qa' n = Some a"
proof (cases e)
  case (SubmitAnswer socketId d)
  then show ?thesis using entry_kept_submitAnswer [OF assms(2,3)] by simp
next
  case (StartQuestion socketId q)
  then show ?thesis using assms by (auto simp: handler_defs update_conv' split: option.splits)
qed (use assms in \<open>auto simp: handler_defs update_conv' split: option.splits\<close>)

lemma entry_kept_run:
  assumes "\<not> list_ex (startsId k) es" and "map_of (answers s) k = Some qa" and "map_of qa n = Some a"
  shows "\<exists>qa'. map_of (answers (fst (run rnd s es))) k = Some qa' \<and> map_of qa' n = Some a"
  using assms
proof (induction es arbitrary: s qa)
  case Nil
  then show ?case by simp
next
  case (Cons e es)
  from Cons.prems have ne: "\<not> startsId k e" and nes: "\<not> list_ex (startsId k) es" by simp_all
  from entry_kept_step [OF ne Cons.prems(2,3)]
  obtain qa1 where "map_of (answers (fst (step rnd s e))) k = Some qa1" "map_of qa1 n = Some a"
    by blast
  from Cons.IH [OF nes this] show ?case
    by (simp add: split_beta Let_def)
qed

subsection \<open>The example states, evaluated\<close>

lemma twoStudentsOpen_eq:
  "twoStudentsOpen =
     \<lparr>currentQuestion = Some (numbered question1 1),
      participants = [(''s1'', \<lparr>name = ''Alice'', role = Student\<rparr>),
                      (''s2'', \<lparr>name = ''Bob'', role = Student\<rparr>)],
      answers = [(''q1'', [])],
      questionTimer = Some 0, timeLeft = 5, questionNumber = 1,
      questionHistory = [(''q1'', 1)], intervals = [0], nextHandle = 1\<rparr>"
  by (simp add: twoStudentsOpen_def handler_defs question1_def)

lemma aliceAnswered_eq:
  "aliceAnswered = twoStudentsOpen\<lparr>answers := [(''q1'', [(''Alice'', ''A'')])]\<rparr>"
  by (simp add: aliceAnswered_def twoStudentsOpen_eq handler_defs question1_def aliceA_def)

subsection \<open>C5: ignored and accepted submissions\<close>

text \<open>
  C5: a \<open>submitAnswer\<close> whose question id is not the id of the open question (or that
  arrives while no question is open), or for whose id \<open>answers\<close> has no map, or whose
  student name already has an entry in that map, changes nothing and emits nothing.
  Otherwise exactly the entry \<open>studentName \<mapsto> answer\<close> is added to the map of that id.
  Consequently an entry, once made, keeps its answer through every later run of events;
  the map of an id is replaced only when \<open>startQuestion\<close> opens a question under that
  same id, which starts another question.
\<close>

theorem submitAnswer_first_wins:
  "(currentQuestion s = None \<or>
    (\<exists>cq. currentQuestion s = Some cq \<and> qid cq \<noteq> questionId d) \<or>
    map_of (answers s) (questionId d) = None \<or>
    (\<exists>qa. map_of (answers s) (questionId d) = Some qa \<and> map_of qa (studentName d) \<noteq> None)
      \<longrightarrow> submitAnswer rnd d s = (s, [])) \<and>
   (\<forall>cq qa. currentQuestion s = Some cq \<and> qid cq = questionId d \<and>
      map_of (answers s) (questionId d) = Some qa \<and> map_of qa (studentName d) = None
      \<longrightarrow> answers (fst (submitAnswer rnd d s)) =
            AList.update (questionId d) (qa @ [(studentName d, answer d)]) (answers s)) \<and>
   (\<forall>k qa n a es. \<not> list_ex (startsId k) es \<and> map_of (answers s) k = Some qa \<and> map_of qa n = Some a
      \<longrightarrow> (\<exists>qa'. map_of (answers (fst (run rnd s es))) k = Some qa' \<and> map_of qa' n = Some a))"
proof (intro conjI allI impI)
  assume "currentQuestion s = None \<or>
    (\<exists>cq. currentQuestion s = Some cq \<and> qid cq \<noteq> questionId d) \<or>
    map_of (answers s) (questionId d) = None \<or>
    (\<exists>qa. map_of (answers s) (questionId d) = Some qa \<and> map_of qa (studentName d) \<noteq> None)"
  then show "submitAnswer rnd d s = (s, [])" by (rule submitAnswer_ignored)
next
  fix cq qa
  assume "currentQuestion s = Some cq \<and> qid cq = questionId d \<and>
      map_of (answers s) (questionId d) = Some qa \<and> map_of qa (studentName d) = None"
  then show "answers (fst (submitAnswer rnd d s)) =
            AList.update (questionId d) (qa @ [(studentName d, answer d)]) (answers s)"
    by (simp add: submitAnswer_accepted)
next
  fix k qa n a es
  assume "\<not> list_ex (startsId k) es \<and> map_of (answers s) k = Some qa \<and> map_of qa n = Some a"
  then show "\<exists>qa'. map_of (answers (fst (run rnd s es))) k = Some qa' \<and> map_of qa' n = Some a"
    by (simp add: entry_kept_run)
qed

theorem submitAnswer_first_wins_witness:
  "submitAnswer halfUpPercent aliceB aliceAnswered = (aliceAnswered, []) \<and>
   answers (fst (submitAnswer halfUpPercent aliceA twoStudentsOpen)) = [(''q1'', [(''Alice'', ''A'')])] \<and>
   (\<exists>qa'. map_of (answers (fst (run halfUpPercent aliceAnswered
              [SubmitAnswer ''s1'' aliceB, TimerTick 0, SubmitAnswer ''s2'' bobB]))) ''q1'' = Some qa'
          \<and> map_of qa' ''Alice'' = Some ''A'')"
proof -
  note t1 = submitAnswer_first_wins [of aliceAnswered aliceB halfUpPercent]
  note t2 = submitAnswer_first_wins [of twoStudentsOpen aliceA halfUpPercent]
  have h1: "\<exists>qa. map_of (answers aliceAnswered) (questionId aliceB) = Some qa \<and>
              map_of qa (studentName aliceB) \<noteq> None"
    by (simp add: aliceAnswered_eq aliceB_def)
  have h2: "currentQuestion twoStudentsOpen = Some (numbered question1 1) \<and>
            qid (numbered question1 1) = questionId aliceA \<and>
            map_of (answers twoStudentsOpen) (questionId aliceA) = Some [] \<and>
            map_of [] (studentName aliceA) = None"
    by (simp add: twoStudentsOpen_eq aliceA_def question1_def)
  have h3: "\<not> list_ex (startsId ''q1'') [SubmitAnswer ''s1'' aliceB, TimerTick 0, SubmitAnswer ''s2'' bobB] \<and>
            map_of (answers aliceAnswered) ''q1'' = Some [(''Alice'', ''A'')] \<and>
            map_of [(''Alice'', ''A'')] ''Alice'' = Some ''A''"
    by (simp add: aliceAnswered_eq)
  have c1: "submitAnswer halfUpPercent aliceB aliceAnswered = (aliceAnswered, [])"
    using t1 h1 by blast
  have c2: "answers (fst (submitAnswer halfUpPercent aliceA twoStudentsOpen)) =
            AList.update (questionId aliceA) ([] @ [(studentName aliceA, answer aliceA)]) (answers twoStudentsOpen)"
    using t2 h2 by blast
  have c3: "\<exists>qa'. map_of (answers (fst (run halfUpPercent aliceAnswered
              [SubmitAnswer ''s1'' aliceB, TimerTick 0, SubmitAnswer ''s2'' bobB]))) ''q1'' = Some qa'
          \<and> map_of qa' ''Alice'' = Some ''A''"
    using t1 h3 by blast
  from c1 c2 c3 show ?thesis
    by (simp add: twoStudentsOpen_eq aliceA_def)
qed

subsection \<open>Runs of submissions and ticks\<close>

lemma pollResultsOf_append: "pollResultsOf (xs @ ys) = pollResultsOf xs @ pollResultsOf ys"
  by (induction xs rule: pollResultsOf.induct) simp_all

lemma pollResultsOf_closing [simp]: "pollResultsOf (closing rnd cq qa) = [pollOf rnd cq qa]"
  by (simp add: closing_def)

lemma fst_run_Cons: "fst (run rnd s (e # es)) = fst (run rnd (fst (step rnd s e)) es)"
  by (simp add: split_beta Let_def)

lemma snd_run_Cons:
  "snd (run rnd s (e # es)) = snd (step rnd s e) @ snd (run rnd (fst (step rnd s e)) es)"
  by (simp add: split_beta Let_def)

lemma timerTick_inactive: "h \<notin> set (intervals s) \<Longrightarrow> timerTick rnd h s = (s, [])"
  by (simp add: timerTick_def)

lemma timerTick_running:
  "h \<in> set (intervals s) \<Longrightarrow> 1 < timeLeft s \<Longrightarrow>
   timerTick rnd h s = (s\<lparr>timeLeft := timeLeft s - 1\<rparr>, [Emit ToAll (TimeUpdate (timeLeft s - 1))])"
  by (simp add: timerTick_def Let_def)

lemma ticks_idle:
  assumes "intervals s = []" and "list_all isSubmitOrTick es" and "submissionsOf es = []"
  shows "run rnd s es = (s, [])"
  using assms
proof (induction es)
  case Nil
  show ?case by simp
next
  case (Cons e es)
  then show ?case
    by (cases e) (simp_all add: timerTick_inactive)
qed

lemma inv_tick_state: "inv s \<Longrightarrow> inv (s\<lparr>timeLeft := t\<rparr>)"
  by (simp add: inv_def split: option.splits)

lemma inv_answers_state:
  "inv s \<Longrightarrow> currentQuestion s = Some cq \<Longrightarrow>
   inv (s\<lparr>answers := AList.update (qid cq) qa (answers s)\<rparr>)"
  by (simp add: inv_def update_conv' split: option.splits)

lemma all_answer_run:
  assumes "inv s" and "currentQuestion s = Some cq" and "map_of (answers s) (qid cq) = Some qa"
    and "list_all isSubmitOrTick es" and "submissionsOf es \<noteq> []"
    and "\<forall>d\<in>set (submissionsOf es). questionId d = qid cq \<and> map_of qa (studentName d) = None"
    and "distinct (map studentName (submissionsOf es))"
    and "totalStudents s = length qa + length (submissionsOf es)"
    and "int (length (ticksOf es)) < timeLeft s"
  shows "currentQuestion (fst (run rnd s es)) = None \<and>
         pollResultsOf (snd (run rnd s es)) =
           [pollOf rnd cq (qa @ map (\<lambda>d. (studentName d, answer d)) (submissionsOf es))]"
  using assms
proof (induction es arbitrary: s qa)
  case Nil
  then show ?case by simp
next
  case (Cons e es)
  show ?case
  proof (cases e)
    case (TimerTick h)
    have sub: "submissionsOf (e # es) = submissionsOf es"
      using TimerTick by simp
    show ?thesis
    proof (cases "h \<in> set (intervals s)")
      case False
      then have st: "step rnd s e = (s, [])"
        using TimerTick by (simp add: timerTick_inactive)
      have "currentQuestion (fst (run rnd s es)) = None \<and>
         pollResultsOf (snd (run rnd s es)) =
           [pollOf rnd cq (qa @ map (\<lambda>d. (studentName d, answer d)) (submissionsOf es))]"
        using Cons.prems TimerTick by (intro Cons.IH) simp_all
      then show ?thesis
        by (simp add: fst_run_Cons snd_run_Cons st sub del: run.simps)
    next
      case True
      have tl: "1 < timeLeft s" using Cons.prems(9) TimerTick by simp
      let ?s1 = "s\<lparr>timeLeft := timeLeft s - 1\<rparr>"
      have st: "step rnd s e = (?s1, [Emit ToAll (TimeUpdate (timeLeft s - 1))])"
        using TimerTick True tl by (simp add: timerTick_running)
      have "currentQuestion (fst (run rnd ?s1 es)) = None \<and>
         pollResultsOf (snd (run rnd ?s1 es)) =
           [pollOf rnd cq (qa @ map (\<lambda>d. (studentName d, answer d)) (submissionsOf es))]"
        using Cons.prems TimerTick
        by (intro Cons.IH) (simp_all add: inv_tick_state totalStudents_def)
      then show ?thesis
        by (simp add: fst_run_Cons snd_run_Cons st sub del: run.simps)
    qed
  next
    case (SubmitAnswer socketId d)
    have d: "questionId d = qid cq" "map_of qa (studentName d) = None"
      using Cons.prems(6) SubmitAnswer by simp_all
    have ans: "map_of (answers s) (questionId d) = Some qa"
      using Cons.prems(3) d by simp
    note acc = submitAnswer_accepted [OF Cons.prems(2) d(1) [symmetric] ans d(2), of rnd]
    let ?qa = "qa @ [(studentName d, answer d)]"
    have sub: "submissionsOf (e # es) = d # submissionsOf es"
      using SubmitAnswer by simp
    have ste: "step rnd s e = submitAnswer rnd d s"
      using SubmitAnswer by simp
    show ?thesis
    proof (cases "submissionsOf es = []")
      case True
      then have tot: "totalStudents s \<le> length qa + 1"
        using Cons.prems(8) SubmitAnswer by simp
      let ?s1 = "fst (submitAnswer rnd d s)"
      have iv: "intervals ?s1 = []"
        using acc tot Cons.prems(1,2) by (auto simp: inv_def split: option.splits)
      have idle: "run rnd ?s1 es = (?s1, [])"
        using iv Cons.prems(4) True by (intro ticks_idle) simp_all
      have cl: "snd (submitAnswer rnd d s) = closing rnd cq ?qa" "currentQuestion ?s1 = None"
        using acc tot by simp_all
      show ?thesis
        using True
        by (simp add: fst_run_Cons snd_run_Cons ste idle sub cl del: run.simps)
    next
      case False
      then have tot: "\<not> totalStudents s \<le> length qa + 1"
        using Cons.prems(8) SubmitAnswer by simp
      let ?s1 = "s\<lparr>answers := AList.update (qid cq) ?qa (answers s)\<rparr>"
      have st: "step rnd s e = (?s1, [])"
        using SubmitAnswer acc tot d by simp
      have "currentQuestion (fst (run rnd ?s1 es)) = None \<and>
         pollResultsOf (snd (run rnd ?s1 es)) =
           [pollOf rnd cq (?qa @ map (\<lambda>d. (studentName d, answer d)) (submissionsOf es))]"
      proof (intro Cons.IH)
        show "inv ?s1" using Cons.prems(1,2) by (rule inv_answers_state)
        show "currentQuestion ?s1 = Some cq" using Cons.prems(2) by simp
        show "map_of (answers ?s1) (qid cq) = Some ?qa" by (simp add: update_conv')
        show "list_all isSubmitOrTick es" using Cons.prems(4) by simp
        show "submissionsOf es \<noteq> []" by (rule False)
        show "\<forall>d\<in>set (submissionsOf es). questionId d = qid cq \<and> map_of ?qa (studentName d) = None"
          using Cons.prems(6,7) SubmitAnswer by (auto simp: map_of_eq_None_iff image_iff)
        show "distinct (map studentName (submissionsOf es))"
          using Cons.prems(7) SubmitAnswer by simp
        show "totalStudents ?s1 = length ?qa + length (submissionsOf es)"
          using Cons.prems(8) SubmitAnswer by (simp add: totalStudents_def)
        show "int (length (ticksOf es)) < timeLeft ?s1"
          using Cons.prems(9) SubmitAnswer by simp
      qed
      then show ?thesis
        by (simp add: fst_run_Cons snd_run_Cons st sub del: run.simps)
    qed
  qed (use Cons.prems(4) in simp_all)
qed

subsection \<open>More example states\<close>

lemma emptyRoomOpen_eq:
  "emptyRoomOpen =
     \<lparr>currentQuestion = Some (numbered question1 1), participants = [],
      answers = [(''q1'', [])],
      questionTimer = Some 0, timeLeft = 5, questionNumber = 1,
      questionHistory = [(''q1'', 1)], intervals = [0], nextHandle = 1\<rparr>"
  by (simp add: emptyRoomOpen_def handler_defs question1_def)

lemma reachable_twoStudentsOpen: "reachable halfUpPercent twoStudentsOpen"
  unfolding twoStudentsOpen_def by (rule reachable_run [OF reachable_init])

lemma reachable_aliceAnswered: "reachable halfUpPercent aliceAnswered"
  unfolding aliceAnswered_def by (rule reachable_run [OF reachable_twoStudentsOpen])

lemma reachable_emptyRoomOpen: "reachable halfUpPercent emptyRoomOpen"
  unfolding emptyRoomOpen_def by (rule reachable_run [OF reachable_init])

lemma calculateResults_question1 [simp]:
  "calculateResults halfUpPercent (qoptions question1) [(''Alice'', ''A''), (''Bob'', ''B'')] =
     [\<lparr>option' = ''A'', count = 1, percentage = 50\<rparr>,
      \<lparr>option' = ''B'', count = 1, percentage = 50\<rparr>]"
  "calculateResults halfUpPercent (qoptions question1) [(''Mallory'', ''A'')] =
     [\<lparr>option' = ''A'', count = 1, percentage = 100\<rparr>,
      \<lparr>option' = ''B'', count = 0, percentage = 0\<rparr>]"
  by (simp_all add: calculateResults_eq aggregateSpec_def firstOccurrences_def halfUpPercent_def
        question1_def)

subsection \<open>C3: closing when everyone has answered\<close>

text \<open>
  C3: in every reachable state with an open question, an accepted \<open>submitAnswer\<close> after
  which the answer map has at least as many entries as there are students closes the
  question at once, whatever time is left: it emits \<open>pollResults\<close> (over the answers
  including the new one) and \<open>questionStatus {canAskNew: true}\<close>, no question is open
  afterwards, and no interval is active, so no tick of the countdown does anything any
  more. In particular: when the answer map of the open question is empty, there are
  \<open>N \<ge> 1\<close> students, and \<open>N\<close> submissions for the open question arrive under
  \<open>N\<close> distinct names, interleaved with fewer ticks than there are seconds left, then
  the run ends with the question closed and exactly one \<open>pollResults\<close>, computed from
  all \<open>N\<close> answers.
\<close>

theorem all_answered_closes:
  assumes "reachable rnd s" and "currentQuestion s = Some cq"
  shows "(\<forall>d qa. qid cq = questionId d \<and> map_of (answers s) (questionId d) = Some qa \<and>
            map_of qa (studentName d) = None \<and> totalStudents s \<le> length qa + 1 \<longrightarrow>
            snd (submitAnswer rnd d s) = closing rnd cq (qa @ [(studentName d, answer d)]) \<and>
            currentQuestion (fst (submitAnswer rnd d s)) = None \<and>
            intervals (fst (submitAnswer rnd d s)) = [] \<and>
            (\<forall>h. timerTick rnd h (fst (submitAnswer rnd d s)) = (fst (submitAnswer rnd d s), []))) \<and>
         (\<forall>es. list_all isSubmitOrTick es \<and> map_of (answers s) (qid cq) = Some [] \<and>
            submissionsOf es \<noteq> [] \<and> (\<forall>d\<in>set (submissionsOf es). questionId d = qid cq) \<and>
            distinct (map studentName (submissionsOf es)) \<and>
            totalStudents s = length (submissionsOf es) \<and>
            int (length (ticksOf es)) < timeLeft s \<longrightarrow>
            currentQuestion (fst (run rnd s es)) = None \<and>
            pollResultsOf (snd (run rnd s es)) =
              [pollOf rnd cq (map (\<lambda>d. (studentName d, answer d)) (submissionsOf es))])"
proof (intro conjI allI impI)
  have i: "inv s" using assms(1) by (rule reachable_inv)
  fix d :: answer_data and qa :: "(string \<times> string) list"
  assume h: "qid cq = questionId d \<and> map_of (answers s) (questionId d) = Some qa \<and>
            map_of qa (studentName d) = None \<and> totalStudents s \<le> length qa + 1"
  then have acc: "submitAnswer rnd d s =
     (s\<lparr>answers := AList.update (questionId d) (qa @ [(studentName d, answer d)]) (answers s),
        intervals := (case questionTimer s of None \<Rightarrow> intervals s
                      | Some h \<Rightarrow> removeAll h (intervals s)),
        currentQuestion := None, timeLeft := 0\<rparr>,
      closing rnd cq (qa @ [(studentName d, answer d)]))"
    using submitAnswer_accepted [OF assms(2), of d qa rnd] by simp
  have iv: "intervals (fst (submitAnswer rnd d s)) = []"
    using acc inv_intervals_cleared [OF i] by simp
  show "snd (submitAnswer rnd d s) = closing rnd cq (qa @ [(studentName d, answer d)])"
    using acc by simp
  show "currentQuestion (fst (submitAnswer rnd d s)) = None"
    using acc by simp
  show "intervals (fst (submitAnswer rnd d s)) = []"
    by (rule iv)
  show "timerTick rnd h (fst (submitAnswer rnd d s)) = (fst (submitAnswer rnd d s), [])" for h
    using iv by (simp add: timerTick_inactive)
next
  have i: "inv s" using assms(1) by (rule reachable_inv)
  fix es :: "event list"
  assume h: "list_all isSubmitOrTick es \<and> map_of (answers s) (qid cq) = Some [] \<and>
            submissionsOf es \<noteq> [] \<and> (\<forall>d\<in>set (submissionsOf es). questionId d = qid cq) \<and>
            distinct (map studentName (submissionsOf es)) \<and>
            totalStudents s = length (submissionsOf es) \<and>
            int (length (ticksOf es)) < timeLeft s"
  have r: "currentQuestion (fst (run rnd s es)) = None \<and>
         pollResultsOf (snd (run rnd s es)) =
           [pollOf rnd cq ([] @ map (\<lambda>d. (studentName d, answer d)) (submissionsOf es))]"
    using i assms(2) h by (intro all_answer_run) simp_all
  show "currentQuestion (fst (run rnd s es)) = None" using r by simp
  show "pollResultsOf (snd (run rnd s es)) =
              [pollOf rnd cq (map (\<lambda>d. (studentName d, answer d)) (submissionsOf es))]"
    using r by simp
qed

theorem all_answered_closes_witness:
  "reachable halfUpPercent aliceAnswered \<and>
   currentQuestion aliceAnswered = Some (numbered question1 1) \<and>
   totalStudents aliceAnswered \<le> length [(''Alice'', ''A'')] + 1 \<and>
   snd (submitAnswer halfUpPercent bobB aliceAnswered) =
     [Emit ToAll (PollResults
        \<lparr>results = [\<lparr>option' = ''A'', count = 1, percentage = 50\<rparr>,
                    \<lparr>option' = ''B'', count = 1, percentage = 50\<rparr>],
         pr_questionNumber = 1, pr_questionId = ''q1'', pr_questionText = ''Pick one''\<rparr>),
      Emit (ToRoom ''teachers'') (QuestionStatus True)] \<and>
   intervals (fst (submitAnswer halfUpPercent bobB aliceAnswered)) = [] \<and>
   reachable halfUpPercent twoStudentsOpen \<and>
   int (length (ticksOf [SubmitAnswer ''s1'' aliceA, TimerTick 0, SubmitAnswer ''s2'' bobB]))
     < timeLeft twoStudentsOpen \<and>
   pollResultsOf (snd (run halfUpPercent twoStudentsOpen
       [SubmitAnswer ''s1'' aliceA, TimerTick 0, SubmitAnswer ''s2'' bobB])) =
     [\<lparr>results = [\<lparr>option' = ''A'', count = 1, percentage = 50\<rparr>,
                  \<lparr>option' = ''B'', count = 1, percentage = 50\<rparr>],
       pr_questionNumber = 1, pr_questionId = ''q1'', pr_questionText = ''Pick one''\<rparr>]"
proof -
  have c1: "currentQuestion aliceAnswered = Some (numbered question1 1)"
    by (simp add: aliceAnswered_eq twoStudentsOpen_eq)
  have c2: "currentQuestion twoStudentsOpen = Some (numbered question1 1)"
    by (simp add: twoStudentsOpen_eq)
  note t1 = all_answered_closes [OF reachable_aliceAnswered c1]
  note t2 = all_answered_closes [OF reachable_twoStudentsOpen c2]
  have h1: "qid (numbered question1 1) = questionId bobB \<and>
            map_of (answers aliceAnswered) (questionId bobB) = Some [(''Alice'', ''A'')] \<and>
            map_of [(''Alice'', ''A'')] (studentName bobB) = None \<and>
            totalStudents aliceAnswered \<le> length [(''Alice'', ''A'')] + 1"
    by (simp add: aliceAnswered_eq twoStudentsOpen_eq bobB_def question1_def totalStudents_def)
  let ?es = "[SubmitAnswer ''s1'' aliceA, TimerTick 0, SubmitAnswer ''s2'' bobB]"
  have h2: "list_all isSubmitOrTick ?es \<and>
            map_of (answers twoStudentsOpen) (qid (numbered question1 1)) = Some [] \<and>
            submissionsOf ?es \<noteq> [] \<and>
            (\<forall>d\<in>set (submissionsOf ?es). questionId d = qid (numbered question1 1)) \<and>
            distinct (map studentName (submissionsOf ?es)) \<and>
            totalStudents twoStudentsOpen = length (submissionsOf ?es) \<and>
            int (length (ticksOf ?es)) < timeLeft twoStudentsOpen"
    by (simp add: twoStudentsOpen_eq aliceA_def bobB_def question1_def totalStudents_def)
  have r1: "snd (submitAnswer halfUpPercent bobB aliceAnswered) =
              closing halfUpPercent (numbered question1 1)
                ([(''Alice'', ''A'')] @ [(studentName bobB, answer bobB)]) \<and>
            intervals (fst (submitAnswer halfUpPercent bobB aliceAnswered)) = []"
    using t1 h1 by blast
  have r2: "pollResultsOf (snd (run halfUpPercent twoStudentsOpen ?es)) =
              [pollOf halfUpPercent (numbered question1 1)
                 (map (\<lambda>d. (studentName d, answer d)) (submissionsOf ?es))]"
    using t2 h2 by blast
  have q: "qtext question1 = ''Pick one''" "qid question1 = ''q1''"
    by (simp_all add: question1_def)
  show ?thesis
    using r1 r2 h1 h2 c1 reachable_aliceAnswered reachable_twoStudentsOpen
    by (simp add: closing_def pollOf_def aliceA_def bobB_def q)
qed

subsection \<open>C9: submissions from names outside the roster\<close>

text \<open>
  C9: \<open>submitAnswer\<close> never looks at the roster. A first submission for the open question
  under a name that no student in the roster bears is recorded in the answer map and
  counts in the comparison with the number of students: the question closes exactly when
  the map, with the new entry, has at least as many entries as there are students. With
  no student in the roster a single such submission closes the question and publishes the
  results.
\<close>

theorem submitAnswer_no_roster_check:
  assumes "currentQuestion s = Some cq" and "qid cq = questionId d"
    and "map_of (answers s) (questionId d) = Some qa" and "map_of qa (studentName d) = None"
    and "studentName d \<notin> set (studentList s)"
  shows "map_of (answers (fst (submitAnswer rnd d s))) (questionId d) =
           Some (qa @ [(studentName d, answer d)]) \<and>
         (currentQuestion (fst (submitAnswer rnd d s)) = None
            \<longleftrightarrow> totalStudents s \<le> length qa + 1) \<and>
         (totalStudents s = 0 \<longrightarrow>
            currentQuestion (fst (submitAnswer rnd d s)) = None \<and>
            snd (submitAnswer rnd d s) = closing rnd cq (qa @ [(studentName d, answer d)]))"
  using assms(1) by (simp add: submitAnswer_accepted [OF assms(1-4)] update_conv')

theorem submitAnswer_no_roster_check_witness:
  "studentName malloryA \<notin> set (studentList twoStudentsOpen) \<and>
   answers (fst (submitAnswer halfUpPercent malloryA twoStudentsOpen)) = [(''q1'', [(''Mallory'', ''A'')])] \<and>
   totalStudents emptyRoomOpen = 0 \<and>
   currentQuestion (fst (submitAnswer halfUpPercent malloryA emptyRoomOpen)) = None \<and>
   snd (submitAnswer halfUpPercent malloryA emptyRoomOpen) =
     [Emit ToAll (PollResults
        \<lparr>results = [\<lparr>option' = ''A'', count = 1, percentage = 100\<rparr>,
                    \<lparr>option' = ''B'', count = 0, percentage = 0\<rparr>],
         pr_questionNumber = 1, pr_questionId = ''q1'', pr_questionText = ''Pick one''\<rparr>),
      Emit (ToRoom ''teachers'') (QuestionStatus True)]"
proof -
  have a1: "currentQuestion twoStudentsOpen = Some (numbered question1 1)"
    "qid (numbered question1 1) = questionId malloryA"
    "map_of (answers twoStudentsOpen) (questionId malloryA) = Some []"
    "map_of [] (studentName malloryA) = None"
    "studentName malloryA \<notin> set (studentList twoStudentsOpen)"
    by (simp_all add: twoStudentsOpen_eq malloryA_def question1_def studentList_def)
  have a2: "currentQuestion emptyRoomOpen = Some (numbered question1 1)"
    "map_of (answers emptyRoomOpen) (questionId malloryA) = Some []"
    "studentName malloryA \<notin> set (studentList emptyRoomOpen)"
    "totalStudents emptyRoomOpen = 0"
    by (simp_all add: emptyRoomOpen_eq malloryA_def studentList_def totalStudents_def)
  note t1 = submitAnswer_no_roster_check [OF a1, of halfUpPercent]
  note t2 = submitAnswer_no_roster_check [OF a2(1) a1(2) a2(2) a1(4) a2(3), of halfUpPercent]
  have r1: "map_of (answers (fst (submitAnswer halfUpPercent malloryA twoStudentsOpen))) ''q1'' =
              Some [(''Mallory'', ''A'')]"
    using t1 by (simp add: malloryA_def)
  have e1: "answers (fst (submitAnswer halfUpPercent malloryA twoStudentsOpen)) =
              [(''q1'', [(''Mallory'', ''A'')])]"
    by (simp add: twoStudentsOpen_eq malloryA_def question1_def handler_defs)
  have q: "qtext question1 = ''Pick one''" "qid question1 = ''q1''"
    by (simp_all add: question1_def)
  show ?thesis
    using t2 a2(4) a1(5) e1
    by (simp add: closing_def pollOf_def malloryA_def q)
qed

subsection \<open>The gate of startQuestion\<close>

lemma aliceKicked_eq:
  "aliceKicked =
     \<lparr>currentQuestion = Some (numbered question1 1), participants = [],
      answers = [(''q1'', [])],
      questionTimer = Some 0, timeLeft = 5, questionNumber = 1,
      questionHistory = [(''q1'', 1)], intervals = [0], nextHandle = 1\<rparr>"
  by (simp add: aliceKicked_def handler_defs question1_def)

lemma reachable_aliceKicked: "reachable halfUpPercent aliceKicked"
  unfolding aliceKicked_def by (rule reachable_run [OF reachable_init])

lemma startQuestion_refused:
  assumes "currentQuestion s \<noteq> None" and "\<not> isQuestionComplete s"
  shows "startQuestion socketId q s = (s, [Emit (ToSocket socketId) (QuestionError questionErrorMessage)])"
  using assms by (simp add: startQuestion_def)

lemma isQuestionComplete_inv:
  assumes "inv s"
  shows "(currentQuestion s = None \<or> isQuestionComplete s) \<longleftrightarrow>
         (currentQuestion s = None \<or>
          (\<exists>cq qa. currentQuestion s = Some cq \<and> map_of (answers s) (qid cq) = Some qa \<and>
             (totalStudents s \<le> length qa \<or> timeLeft s \<le> 0)))"
  using assms by (auto simp: inv_def isQuestionComplete_def split: option.splits)

subsection \<open>C2: when startQuestion succeeds\<close>

text \<open>
  C2: in every reachable state, \<open>startQuestion\<close> succeeds (the numbered question becomes
  the current question, the counter grows by one, the three notifications of a start are
  emitted and no error) if and only if no question is open or the open question is
  complete, that is, its answer map has at least as many entries as there are students
  or \<open>timeLeft \<le> 0\<close>. Otherwise the handler emits \<open>questionError\<close> to the requesting
  socket and nothing else, and returns the state as it was.
\<close>

theorem startQuestion_gate:
  assumes "reachable rnd s"
  shows "(currentQuestion s = None \<or>
          (\<exists>cq qa. currentQuestion s = Some cq \<and> map_of (answers s) (qid cq) = Some qa \<and>
             (totalStudents s \<le> length qa \<or> timeLeft s \<le> 0))
          \<longrightarrow> currentQuestion (fst (startQuestion socketId q s)) =
                Some (numbered q (questionNumber s + 1)) \<and>
              questionNumber (fst (startQuestion socketId q s)) = questionNumber s + 1 \<and>
              snd (startQuestion socketId q s) =
                [Emit (ToRoom ''students'') (QuestionStarted (numbered q (questionNumber s + 1))),
                 Emit ToAll (TimeUpdate (qtimeLimit q)),
                 Emit (ToRoom ''teachers'') (QuestionStatus False)]) \<and>
         (\<not> (currentQuestion s = None \<or>
          (\<exists>cq qa. currentQuestion s = Some cq \<and> map_of (answers s) (qid cq) = Some qa \<and>
             (totalStudents s \<le> length qa \<or> timeLeft s \<le> 0)))
          \<longrightarrow> startQuestion socketId q s =
                (s, [Emit (ToSocket socketId) (QuestionError questionErrorMessage)]))"
proof -
  have i: "inv s" using assms by (rule reachable_inv)
  note g = isQuestionComplete_inv [OF i, symmetric]
  show ?thesis
    unfolding g
  proof (intro conjI impI)
    assume p: "currentQuestion s = None \<or> isQuestionComplete s"
    show "currentQuestion (fst (startQuestion socketId q s)) = Some (numbered q (questionNumber s + 1))"
      "questionNumber (fst (startQuestion socketId q s)) = questionNumber s + 1"
      "snd (startQuestion socketId q s) =
                [Emit (ToRoom ''students'') (QuestionStarted (numbered q (questionNumber s + 1))),
                 Emit ToAll (TimeUpdate (qtimeLimit q)),
                 Emit (ToRoom ''teachers'') (QuestionStatus False)]"
      by (simp_all add: startQuestion_success [OF p])
  next
    assume "\<not> (currentQuestion s = None \<or> isQuestionComplete s)"
    then show "startQuestion socketId q s =
                (s, [Emit (ToSocket socketId) (QuestionError questionErrorMessage)])"
      by (simp add: startQuestion_refused)
  qed
qed

theorem startQuestion_gate_witness:
  "reachable halfUpPercent aliceAnswered \<and>
   currentQuestion aliceAnswered \<noteq> None \<and>
   \<not> totalStudents aliceAnswered \<le> length [(''Alice'', ''A'')] \<and> \<not> timeLeft aliceAnswered \<le> 0 \<and>
   startQuestion ''t'' question2 aliceAnswered =
     (aliceAnswered, [Emit (ToSocket ''t'') (QuestionError questionErrorMessage)]) \<and>
   reachable halfUpPercent aliceKicked \<and>
   totalStudents aliceKicked \<le> length ([] :: (string \<times> string) list) \<and>
   currentQuestion (fst (startQuestion ''t'' question2 aliceKicked)) = Some (numbered question2 2) \<and>
   snd (startQuestion ''t'' question2 aliceKicked) =
     [Emit (ToRoom ''students'') (QuestionStarted (numbered question2 2)),
      Emit ToAll (TimeUpdate 5),
      Emit (ToRoom ''teachers'') (QuestionStatus False)]"
proof -
  note t1 = startQuestion_gate [OF reachable_aliceAnswered, of "''t''" question2]
  note t2 = startQuestion_gate [OF reachable_aliceKicked, of "''t''" question2]
  have s1: "currentQuestion aliceAnswered = Some (numbered question1 1)"
    "map_of (answers aliceAnswered) ''q1'' = Some [(''Alice'', ''A'')]"
    "totalStudents aliceAnswered = 2" "timeLeft aliceAnswered = 5"
    by (simp_all add: aliceAnswered_eq twoStudentsOpen_eq totalStudents_def)
  have h1: "\<not> (currentQuestion aliceAnswered = None \<or>
          (\<exists>cq qa. currentQuestion aliceAnswered = Some cq \<and>
             map_of (answers aliceAnswered) (qid cq) = Some qa \<and>
             (totalStudents aliceAnswered \<le> length qa \<or> timeLeft aliceAnswered \<le> 0)))"
    by (simp add: s1 question1_def)
  have s2: "currentQuestion aliceKicked = Some (numbered question1 1)"
    "map_of (answers aliceKicked) ''q1'' = Some []"
    "totalStudents aliceKicked = 0" "questionNumber aliceKicked = 1"
    by (simp_all add: aliceKicked_eq totalStudents_def)
  have h2: "currentQuestion aliceKicked = None \<or>
          (\<exists>cq qa. currentQuestion aliceKicked = Some cq \<and>
             map_of (answers aliceKicked) (qid cq) = Some qa \<and>
             (totalStudents aliceKicked \<le> length qa \<or> timeLeft aliceKicked \<le> 0))"
    by (simp add: s2 question1_def)
  have r1: "startQuestion ''t'' question2 aliceAnswered =
     (aliceAnswered, [Emit (ToSocket ''t'') (QuestionError questionErrorMessage)])"
    using t1 h1 by blast
  have r2: "currentQuestion (fst (startQuestion ''t'' question2 aliceKicked)) =
              Some (numbered question2 (questionNumber aliceKicked + 1)) \<and>
            snd (startQuestion ''t'' question2 aliceKicked) =
              [Emit (ToRoom ''students'')
                 (QuestionStarted (numbered question2 (questionNumber aliceKicked + 1))),
               Emit ToAll (TimeUpdate (qtimeLimit question2)),
               Emit (ToRoom ''teachers'') (QuestionStatus False)]"
    using t2 h2 by blast
  have q: "qtimeLimit question2 = 5" by (simp add: question2_def)
  show ?thesis
    using r1 r2 reachable_aliceAnswered reachable_aliceKicked
    by (simp add: s1 s2 q)
qed

subsection \<open>Removing a student\<close>

lemma find_split:
  "find P xs = Some x \<Longrightarrow>
   \<exists>before after. xs = before @ x # after \<and> P x \<and> (\<forall>y\<in>set before. \<not> P y)"
proof (induction xs)
  case Nil
  then show ?case by simp
next
  case (Cons a xs)
  show ?case
  proof (cases "P a")
    case True
    with Cons.prems have "a = x" by simp
    with True have "a # xs = [] @ x # xs \<and> P x \<and> (\<forall>y\<in>set []. \<not> P y)" by simp
    then show ?thesis by blast
  next
    case False
    with Cons.prems have "find P xs = Some x" by simp
    from Cons.IH [OF this] obtain before after
      where "xs = before @ x # after" "P x" "\<forall>y\<in>set before. \<not> P y" by blast
    with False have "a # xs = (a # before) @ x # after \<and> P x \<and> (\<forall>y\<in>set (a # before). \<not> P y)"
      by simp
    then show ?thesis by blast
  qed
qed

lemma delete_middle:
  "distinct (map fst (before @ (k, v) # after)) \<Longrightarrow>
   AList.delete k (before @ (k, v) # after) = before @ after"
  by (induction before) auto

lemma studentList_mem:
  "n \<in> set (studentList s) \<longleftrightarrow>
   (\<exists>x\<in>set (participants s). (\<lambda>(socketId, p). name p = n \<and> role p = Student) x)"
  by (auto simp: studentList_def image_iff)

lemma kickStudent_absent:
  assumes "n \<notin> set (studentList s)"
  shows "kickStudent n s = (s, [])"
proof -
  have "find (\<lambda>(socketId, p). name p = n \<and> role p = Student) (participants s) = None"
    using assms by (auto simp: find_None_iff studentList_mem)
  then show ?thesis by (simp add: kickStudent_def)
qed

lemma kickStudent_present:
  assumes "distinct (map fst (participants s))" and "n \<in> set (studentList s)"
  shows "\<exists>before socketId p after.
           participants s = before @ (socketId, p) # after \<and> name p = n \<and> role p = Student \<and>
           (\<forall>(k, v)\<in>set before. \<not> (name v = n \<and> role v = Student)) \<and>
           kickStudent n s =
             (s\<lparr>participants := before @ after\<rparr>,
              [Emit (ToRoom socketId) StudentKicked,
               Emit ToAll (ParticipantsUpdate (studentList (s\<lparr>participants := before @ after\<rparr>))),
               DisconnectSocket socketId])"
proof -
  let ?P = "\<lambda>(socketId, p). name p = n \<and> role p = Student"
  from assms(2) obtain x where "find ?P (participants s) = Some x"
    by (cases "find ?P (participants s)") (auto simp: find_None_iff studentList_mem)
  moreover obtain socketId p where x: "x = (socketId, p)" by (cases x)
  ultimately have f: "find ?P (participants s) = Some (socketId, p)" by simp
  from find_split [OF f] obtain before after
    where sp: "participants s = before @ (socketId, p) # after" "?P (socketId, p)"
      "\<forall>y\<in>set before. \<not> ?P y" by blast
  have del: "AList.delete socketId (participants s) = before @ after"
    using assms(1) unfolding sp(1) by (rule delete_middle)
  have "kickStudent n s =
             (s\<lparr>participants := before @ after\<rparr>,
              [Emit (ToRoom socketId) StudentKicked,
               Emit ToAll (ParticipantsUpdate (studentList (s\<lparr>participants := before @ after\<rparr>))),
               DisconnectSocket socketId])"
    by (simp add: kickStudent_def f del Let_def)
  with sp show ?thesis by blast
qed

lemma kickStudent_frame:
  "fst (kickStudent n s) = s\<lparr>participants := participants (fst (kickStudent n s))\<rparr>"
  by (simp add: kickStudent_def Let_def split: option.splits prod.splits)

lemma disconnect_frame:
  "fst (disconnect socketId s) = s\<lparr>participants := participants (fst (disconnect socketId s))\<rparr>"
  by (simp add: disconnect_def Let_def)

lemma endQuestion_participants:
  "snd (endQuestion rnd (s\<lparr>participants := ps\<rparr>)) = snd (endQuestion rnd s)"
  by (simp add: endQuestion_def split: option.splits)

lemma kickStudent_alice:
  "kickStudent ''Alice'' aliceAnswered =
     (aliceAnswered\<lparr>participants := [(''s2'', \<lparr>name = ''Bob'', role = Student\<rparr>)]\<rparr>,
      [Emit (ToRoom ''s1'') StudentKicked, Emit ToAll (ParticipantsUpdate [''Bob'']),
       DisconnectSocket ''s1''])"
  by (simp add: aliceAnswered_eq twoStudentsOpen_eq kickStudent_def studentList_def)

lemma studentJoin_effects:
  "studentJoin socketId n s =
     (s\<lparr>participants := AList.update socketId \<lparr>name = n, role = Student\<rparr> (participants s)\<rparr>,
      [JoinRoom socketId ''students'',
       Emit ToAll (ParticipantsUpdate (studentList
         (s\<lparr>participants := AList.update socketId \<lparr>name = n, role = Student\<rparr> (participants s)\<rparr>)))] @
      (case currentQuestion s of
         None \<Rightarrow> []
       | Some cq \<Rightarrow> [Emit (ToSocket socketId) (QuestionStarted cq),
                     Emit (ToSocket socketId) (TimeUpdate (timeLeft s))]))"
  by (simp add: studentJoin_def Let_def split: option.splits)

subsection \<open>C7: kickStudent\<close>

text \<open>
  C7: \<open>kickStudent(name)\<close> removes the first entry of the participant map whose role is
  student and whose name is the given one, and no other entry; it emits \<open>studentKicked\<close>
  to that entry's socket, \<open>participantsUpdate\<close> with the student list after the removal to
  everyone, and disconnects that socket. Nothing but the participant map changes (the
  current question, \<open>timeLeft\<close>, the timer and the answer maps stay as they are), so the
  results that closing the question would publish are the same before and after the
  removal: an answer the removed student had submitted stays counted. When no student
  bears the name, the handler changes nothing and emits nothing.
\<close>

theorem kickStudent_removes_first:
  assumes "reachable rnd s"
  shows "(n \<notin> set (studentList s) \<longrightarrow> kickStudent n s = (s, [])) \<and>
         (n \<in> set (studentList s) \<longrightarrow>
            (\<exists>before socketId p after.
               participants s = before @ (socketId, p) # after \<and> name p = n \<and> role p = Student \<and>
               (\<forall>(k, v)\<in>set before. \<not> (name v = n \<and> role v = Student)) \<and>
               kickStudent n s =
                 (s\<lparr>participants := before @ after\<rparr>,
                  [Emit (ToRoom socketId) StudentKicked,
                   Emit ToAll (ParticipantsUpdate (studentList (s\<lparr>participants := before @ after\<rparr>))),
                   DisconnectSocket socketId]))) \<and>
         fst (kickStudent n s) = s\<lparr>participants := participants (fst (kickStudent n s))\<rparr> \<and>
         snd (endQuestion rnd (fst (kickStudent n s))) = snd (endQuestion rnd s)"
proof -
  have "inv s" using assms by (rule reachable_inv)
  then have d: "distinct (map fst (participants s))" by (simp add: inv_def)
  have e: "snd (endQuestion rnd (fst (kickStudent n s))) = snd (endQuestion rnd s)"
    by (subst kickStudent_frame) (rule endQuestion_participants)
  show ?thesis
    using kickStudent_absent [of n s] kickStudent_present [OF d, of n] kickStudent_frame [of n s] e
    by blast
qed

theorem kickStudent_removes_first_witness:
  "reachable halfUpPercent aliceAnswered \<and>
   ''Carol'' \<notin> set (studentList aliceAnswered) \<and>
   kickStudent ''Carol'' aliceAnswered = (aliceAnswered, []) \<and>
   ''Alice'' \<in> set (studentList aliceAnswered) \<and>
   kickStudent ''Alice'' aliceAnswered =
     (aliceAnswered\<lparr>participants := [(''s2'', \<lparr>name = ''Bob'', role = Student\<rparr>)]\<rparr>,
      [Emit (ToRoom ''s1'') StudentKicked, Emit ToAll (ParticipantsUpdate [''Bob'']),
       DisconnectSocket ''s1'']) \<and>
   answers (fst (kickStudent ''Alice'' aliceAnswered)) = [(''q1'', [(''Alice'', ''A'')])] \<and>
   snd (endQuestion halfUpPercent (fst (kickStudent ''Alice'' aliceAnswered))) =
     snd (endQuestion halfUpPercent aliceAnswered)"
proof -
  note t = kickStudent_removes_first [OF reachable_aliceAnswered]
  have l: "studentList aliceAnswered = [''Alice'', ''Bob'']"
    by (simp add: aliceAnswered_eq twoStudentsOpen_eq studentList_def)
  have c: "kickStudent ''Carol'' aliceAnswered = (aliceAnswered, [])"
    using t [of "''Carol''"] by (simp add: l)
  have e: "snd (endQuestion halfUpPercent (fst (kickStudent ''Alice'' aliceAnswered))) =
     snd (endQuestion halfUpPercent aliceAnswered)"
    using t [of "''Alice''"] by blast
  have a: "answers (fst (kickStudent ''Alice'' aliceAnswered)) = [(''q1'', [(''Alice'', ''A'')])]"
    by (simp add: kickStudent_alice) (simp add: aliceAnswered_eq)
  show ?thesis
    using c e a reachable_aliceAnswered kickStudent_alice by (simp add: l)
qed

subsection \<open>C8: participantsUpdate after roster changes\<close>

text \<open>
  C8: a student join, a disconnect and a removal each emit \<open>participantsUpdate\<close> to
  everyone, carrying the names of the participants whose role is student in the
  participant map as it is after the change (\<open>studentList\<close> of the new state): after
  the join the map has the joining socket as a student of the given name, after the
  disconnect it has no entry for the socket, after the removal it has one entry fewer.
  A student who joins while a question is open is also sent, on the own socket,
  \<open>questionStarted\<close> with the open question and \<open>timeUpdate\<close> with the time left.
\<close>

theorem participantsUpdate_current:
  assumes "reachable rnd s"
  shows "snd (studentJoin socketId n s) =
           [JoinRoom socketId ''students'',
            Emit ToAll (ParticipantsUpdate (studentList (fst (studentJoin socketId n s))))] @
           (case currentQuestion s of
              None \<Rightarrow> []
            | Some cq \<Rightarrow> [Emit (ToSocket socketId) (QuestionStarted cq),
                          Emit (ToSocket socketId) (TimeUpdate (timeLeft s))]) \<and>
         map_of (participants (fst (studentJoin socketId n s))) =
           (map_of (participants s))(socketId \<mapsto> \<lparr>name = n, role = Student\<rparr>) \<and>
         snd (disconnect socketId s) =
           [Emit ToAll (ParticipantsUpdate (studentList (fst (disconnect socketId s))))] \<and>
         map_of (participants (fst (disconnect socketId s))) =
           (map_of (participants s))(socketId := None) \<and>
         (n \<in> set (studentList s) \<longrightarrow>
            length (participants (fst (kickStudent n s))) + 1 = length (participants s) \<and>
            Emit ToAll (ParticipantsUpdate (studentList (fst (kickStudent n s))))
              \<in> set (snd (kickStudent n s)))"
proof -
  have "inv s" using assms by (rule reachable_inv)
  then have d: "distinct (map fst (participants s))" by (simp add: inv_def)
  have k: "n \<in> set (studentList s) \<longrightarrow>
            length (participants (fst (kickStudent n s))) + 1 = length (participants s) \<and>
            Emit ToAll (ParticipantsUpdate (studentList (fst (kickStudent n s))))
              \<in> set (snd (kickStudent n s))"
  proof
    assume "n \<in> set (studentList s)"
    from kickStudent_present [OF d this] obtain before socketId p after
      where "participants s = before @ (socketId, p) # after"
        "kickStudent n s =
             (s\<lparr>participants := before @ after\<rparr>,
              [Emit (ToRoom socketId) StudentKicked,
               Emit ToAll (ParticipantsUpdate (studentList (s\<lparr>participants := before @ after\<rparr>))),
               DisconnectSocket socketId])"
      by blast
    then show "length (participants (fst (kickStudent n s))) + 1 = length (participants s) \<and>
            Emit ToAll (ParticipantsUpdate (studentList (fst (kickStudent n s))))
              \<in> set (snd (kickStudent n s))"
      by simp
  qed
  show ?thesis
    using k by (simp add: studentJoin_effects disconnect_def Let_def update_conv' delete_conv')
qed

theorem participantsUpdate_current_witness:
  "reachable halfUpPercent aliceAnswered \<and>
   snd (studentJoin ''s3'' ''Carol'' aliceAnswered) =
     [JoinRoom ''s3'' ''students'',
      Emit ToAll (ParticipantsUpdate [''Alice'', ''Bob'', ''Carol'']),
      Emit (ToSocket ''s3'') (QuestionStarted (numbered question1 1)),
      Emit (ToSocket ''s3'') (TimeUpdate 5)] \<and>
   snd (disconnect ''s1'' aliceAnswered) = [Emit ToAll (ParticipantsUpdate [''Bob''])] \<and>
   ''Alice'' \<in> set (studentList aliceAnswered) \<and>
   Emit ToAll (ParticipantsUpdate [''Bob'']) \<in> set (snd (kickStudent ''Alice'' aliceAnswered))"
proof -
  note t1 = participantsUpdate_current [OF reachable_aliceAnswered, of "''s3''" "''Carol''"]
  note t2 = participantsUpdate_current [OF reachable_aliceAnswered, of "''s1''" "''Alice''"]
  have l: "studentList aliceAnswered = [''Alice'', ''Bob'']"
    by (simp add: aliceAnswered_eq twoStudentsOpen_eq studentList_def)
  have j: "studentList (fst (studentJoin ''s3'' ''Carol'' aliceAnswered)) = [''Alice'', ''Bob'', ''Carol'']"
    by (simp add: aliceAnswered_eq twoStudentsOpen_eq studentJoin_def studentList_def)
  have dl: "studentList (fst (disconnect ''s1'' aliceAnswered)) = [''Bob'']"
    by (simp add: aliceAnswered_eq twoStudentsOpen_eq disconnect_def studentList_def)
  have kl: "studentList (fst (kickStudent ''Alice'' aliceAnswered)) = [''Bob'']"
    by (simp add: kickStudent_alice) (simp add: studentList_def)
  have c: "currentQuestion aliceAnswered = Some (numbered question1 1)" "timeLeft aliceAnswered = 5"
    by (simp_all add: aliceAnswered_eq twoStudentsOpen_eq)
  have r1: "snd (studentJoin ''s3'' ''Carol'' aliceAnswered) =
     [JoinRoom ''s3'' ''students'',
      Emit ToAll (ParticipantsUpdate [''Alice'', ''Bob'', ''Carol'']),
      Emit (ToSocket ''s3'') (QuestionStarted (numbered question1 1)),
      Emit (ToSocket ''s3'') (TimeUpdate 5)]"
    using t1 by (simp add: j c)
  have r2: "snd (disconnect ''s1'' aliceAnswered) = [Emit ToAll (ParticipantsUpdate [''Bob''])]"
    using t2 by (simp add: dl)
  have r3: "Emit ToAll (ParticipantsUpdate [''Bob'']) \<in> set (snd (kickStudent ''Alice'' aliceAnswered))"
    using t2 by (simp add: l kl)
  show ?thesis
    using r1 r2 r3 reachable_aliceAnswered by (simp add: l)
qed

subsection \<open>The fate of every started question\<close>

lemma pollNumbers_append: "pollNumbers (xs @ ys) = pollNumbers xs @ pollNumbers ys"
  by (simp add: pollNumbers_def pollResultsOf_append)

lemma openNumber_inv: "inv s \<Longrightarrow> openNumber s = [] \<or> openNumber s = [questionNumber s]"
  by (auto simp: inv_def openNumber_def split: option.splits)

lemma fates_teacherJoin:
  "pollNumbers (snd (teacherJoin socketId s)) = [] \<and>
   openNumber (fst (teacherJoin socketId s)) = openNumber s \<and>
   questionNumber (fst (teacherJoin socketId s)) = questionNumber s"
  by (simp add: teacherJoin_def Let_def pollNumbers_def openNumber_def)

lemma fates_studentJoin:
  "pollNumbers (snd (studentJoin socketId n s)) = [] \<and>
   openNumber (fst (studentJoin socketId n s)) = openNumber s \<and>
   questionNumber (fst (studentJoin socketId n s)) = questionNumber s"
  by (simp add: studentJoin_def Let_def pollNumbers_def openNumber_def split: option.splits)

lemma fates_chatMessage:
  "pollNumbers (snd (chatMessage payload s)) = [] \<and>
   openNumber (fst (chatMessage payload s)) = openNumber s \<and>
   questionNumber (fst (chatMessage payload s)) = questionNumber s"
  by (simp add: chatMessage_def pollNumbers_def)

lemma fates_kickStudent:
  "pollNumbers (snd (kickStudent n s)) = [] \<and>
   openNumber (fst (kickStudent n s)) = openNumber s \<and>
   questionNumber (fst (kickStudent n s)) = questionNumber s"
  by (simp add: kickStudent_def Let_def pollNumbers_def openNumber_def split: option.splits prod.splits)

lemma fates_disconnect:
  "pollNumbers (snd (disconnect socketId s)) = [] \<and>
   openNumber (fst (disconnect socketId s)) = openNumber s \<and>
   questionNumber (fst (disconnect socketId s)) = questionNumber s"
  by (simp add: disconnect_def Let_def pollNumbers_def openNumber_def)

lemma fates_submitAnswer:
  assumes "inv s"
  shows "(pollNumbers (snd (submitAnswer rnd d s)) = [] \<and>
          openNumber (fst (submitAnswer rnd d s)) = openNumber s \<or>
          pollNumbers (snd (submitAnswer rnd d s)) = openNumber s \<and> openNumber s \<noteq> [] \<and>
          openNumber (fst (submitAnswer rnd d s)) = []) \<and>
         questionNumber (fst (submitAnswer rnd d s)) = questionNumber s"
  using assms
  by (auto simp: submitAnswer_def endQuestion_def clearInterval_def Let_def inv_def update_conv'
        pollNumbers_def openNumber_def split: option.splits)

lemma fates_timerTick:
  assumes "inv s"
  shows "(pollNumbers (snd (timerTick rnd h s)) = [] \<and>
          openNumber (fst (timerTick rnd h s)) = openNumber s \<or>
          pollNumbers (snd (timerTick rnd h s)) = openNumber s \<and> openNumber s \<noteq> [] \<and>
          openNumber (fst (timerTick rnd h s)) = []) \<and>
         questionNumber (fst (timerTick rnd h s)) = questionNumber s"
  using assms
  by (auto simp: timerTick_def endQuestion_def clearInterval_def Let_def inv_def
        pollNumbers_def openNumber_def split: option.splits)

lemma fates_startQuestion:
  "(startQuestion socketId q s = (s, [Emit (ToSocket socketId) (QuestionError questionErrorMessage)]) \<and>
    replacedBy s (StartQuestion socketId q) = [] \<or>
    pollNumbers (snd (startQuestion socketId q s)) = [] \<and>
    replacedBy s (StartQuestion socketId q) = openNumber s \<and>
    openNumber (fst (startQuestion socketId q s)) = [questionNumber s + 1] \<and>
    questionNumber (fst (startQuestion socketId q s)) = questionNumber s + 1)"
proof (cases "currentQuestion s \<noteq> None \<and> \<not> isQuestionComplete s")
  case True
  then show ?thesis by (simp add: startQuestion_refused)
next
  case False
  then have p: "currentQuestion s = None \<or> isQuestionComplete s" by blast
  have "isQuestionComplete s" using p by (auto simp: isQuestionComplete_def)
  then show ?thesis
    by (simp add: startQuestion_success [OF p] pollNumbers_def openNumber_def)
qed

text \<open>The three things a step can do to the bookkeeping.\<close>

lemma fates_step:
  assumes "inv s"
  shows "(pollNumbers (snd (step rnd s e)) = [] \<and> replacedBy s e = [] \<and>
          openNumber (fst (step rnd s e)) = openNumber s \<and>
          questionNumber (fst (step rnd s e)) = questionNumber s) \<or>
         (pollNumbers (snd (step rnd s e)) = openNumber s \<and> openNumber s \<noteq> [] \<and>
          replacedBy s e = [] \<and> openNumber (fst (step rnd s e)) = [] \<and>
          questionNumber (fst (step rnd s e)) = questionNumber s) \<or>
         (pollNumbers (snd (step rnd s e)) = [] \<and> replacedBy s e = openNumber s \<and>
          openNumber (fst (step rnd s e)) = [questionNumber s + 1] \<and>
          questionNumber (fst (step rnd s e)) = questionNumber s + 1)"
proof (cases e)
  case (TeacherJoin socketId)
  then show ?thesis using fates_teacherJoin [of socketId s] by simp
next
  case (StudentJoin socketId n)
  then show ?thesis using fates_studentJoin [of socketId n s] by simp
next
  case (StartQuestion socketId q)
  then show ?thesis using fates_startQuestion [of socketId q s]
    by (auto simp: pollNumbers_def)
next
  case (SubmitAnswer socketId d)
  then show ?thesis using fates_submitAnswer [OF assms, of rnd d] by auto
next
  case (ChatMessageEv socketId payload)
  then show ?thesis using fates_chatMessage [of payload s] by simp
next
  case (KickStudent socketId n)
  then show ?thesis using fates_kickStudent [of n s] by simp
next
  case (Disconnect socketId)
  then show ?thesis using fates_disconnect [of socketId s] by simp
next
  case (TimerTick h)
  then show ?thesis using fates_timerTick [OF assms, of rnd h] by auto
qed

lemma fates_run:
  assumes "inv s"
  shows "distinct (pollNumbers (snd (run rnd s es)) @ replacedNumbers rnd s es @
                   openNumber (fst (run rnd s es))) \<and>
         set (pollNumbers (snd (run rnd s es)) @ replacedNumbers rnd s es @
              openNumber (fst (run rnd s es))) =
           set (openNumber s) \<union> {questionNumber s <.. questionNumber (fst (run rnd s es))} \<and>
         questionNumber s \<le> questionNumber (fst (run rnd s es))"
  using assms
proof (induction es arbitrary: s)
  case Nil
  then show ?case using openNumber_inv [of s] by (auto simp: pollNumbers_def)
next
  case (Cons e es)
  let ?s1 = "fst (step rnd s e)"
  let ?s' = "fst (run rnd ?s1 es)"
  let ?P' = "pollNumbers (snd (run rnd ?s1 es))"
  let ?R' = "replacedNumbers rnd ?s1 es"
  let ?n = "questionNumber s"
  have i1: "inv ?s1" using Cons.prems by (rule inv_step)
  from Cons.IH [OF i1]
  have IHd: "distinct (?P' @ ?R' @ openNumber ?s')"
    and IHs: "set (?P' @ ?R' @ openNumber ?s') =
              set (openNumber ?s1) \<union> {questionNumber ?s1 <.. questionNumber ?s'}"
    and IHn: "questionNumber ?s1 \<le> questionNumber ?s'"
    by blast+
  have P: "pollNumbers (snd (run rnd s (e # es))) = pollNumbers (snd (step rnd s e)) @ ?P'"
    by (simp add: snd_run_Cons pollNumbers_append del: run.simps)
  have S: "fst (run rnd s (e # es)) = ?s'"
    by (rule fst_run_Cons)
  have R: "replacedNumbers rnd s (e # es) = replacedBy s e @ ?R'"
    by simp
  from fates_step [OF Cons.prems, of rnd e]
  consider
    (same) "pollNumbers (snd (step rnd s e)) = []" "replacedBy s e = []"
      "openNumber ?s1 = openNumber s" "questionNumber ?s1 = ?n"
  | (closed) "pollNumbers (snd (step rnd s e)) = [?n]" "openNumber s = [?n]"
      "replacedBy s e = []" "openNumber ?s1 = []" "questionNumber ?s1 = ?n"
  | (started) "pollNumbers (snd (step rnd s e)) = []" "replacedBy s e = openNumber s"
      "openNumber ?s1 = [?n + 1]" "questionNumber ?s1 = ?n + 1"
    using openNumber_inv [OF Cons.prems] by fastforce
  then show ?case
  proof cases
    case same
    show ?thesis
      unfolding P S R using IHd IHs IHn by (simp add: same)
  next
    case closed
    have notin: "?n \<notin> set (?P' @ ?R' @ openNumber ?s')"
      unfolding IHs by (simp add: closed)
    have "distinct ([?n] @ ?P' @ ?R' @ openNumber ?s')"
      using IHd notin by simp
    moreover have "set ([?n] @ ?P' @ ?R' @ openNumber ?s') = {?n} \<union> {?n <.. questionNumber ?s'}"
      using IHs by (simp add: closed)
    ultimately show ?thesis
      unfolding P S R using IHn by (simp add: closed)
  next
    case started
    have sub: "set (openNumber s) \<subseteq> {?n}"
      using openNumber_inv [OF Cons.prems] by auto
    have all: "set (?P' @ ?R' @ openNumber ?s') = {?n + 1} \<union> {?n + 1 <.. questionNumber ?s'}"
      using IHs by (simp add: started)
    have le: "?n + 1 \<le> questionNumber ?s'" using IHn by (simp add: started)
    have eq: "{?n + 1} \<union> {?n + 1 <.. questionNumber ?s'} = {?n <.. questionNumber ?s'}"
      using le by auto
    have disj: "set (openNumber s) \<inter> set (?P' @ ?R' @ openNumber ?s') = {}"
      unfolding all eq using sub by auto
    have d: "distinct (openNumber s)"
      using openNumber_inv [OF Cons.prems] by auto
    have "distinct (?P' @ openNumber s @ ?R' @ openNumber ?s')"
      using IHd disj d by auto
    moreover have "set (?P' @ openNumber s @ ?R' @ openNumber ?s') =
                   set (openNumber s) \<union> {?n <.. questionNumber ?s'}"
      using all eq by auto
    ultimately show ?thesis
      unfolding P S R using le by (simp add: started)
  qed
qed

subsection \<open>Expiry of the countdown, and where pollResults can come from\<close>

lemma timerTick_expiring:
  assumes "inv s" and "currentQuestion s = Some cq" and "questionTimer s = Some h"
    and "map_of (answers s) (qid cq) = Some qa" and "timeLeft s \<le> 1"
  shows "timerTick rnd h s =
           (s\<lparr>timeLeft := 0, intervals := [], currentQuestion := None\<rparr>,
            Emit ToAll (TimeUpdate (timeLeft s - 1)) # closing rnd cq qa)"
  using assms
  by (auto simp: timerTick_def endQuestion_def clearInterval_def Let_def inv_def closing_def
        pollOf_def)

lemma countdown_closes:
  assumes "inv s" and "currentQuestion s = Some cq" and "questionTimer s = Some h"
    and "map_of (answers s) (qid cq) = Some qa" and "n = nat (max 1 (timeLeft s))"
  shows "currentQuestion (fst (run rnd s (replicate n (TimerTick h)))) = None \<and>
         pollResultsOf (snd (run rnd s (replicate n (TimerTick h)))) = [pollOf rnd cq qa]"
  using assms
proof (induction n arbitrary: s)
  case 0
  then show ?case by simp
next
  case (Suc n)
  show ?case
  proof (cases "timeLeft s \<le> 1")
    case True
    then have n: "n = 0" using Suc.prems(5) by simp
    note t = timerTick_expiring [OF Suc.prems(1-4) True, of rnd]
    show ?thesis
      by (simp add: n t)
  next
    case False
    let ?s1 = "s\<lparr>timeLeft := timeLeft s - 1\<rparr>"
    have h: "h \<in> set (intervals s)"
      using Suc.prems(1-3) by (simp add: inv_def)
    have st: "step rnd s (TimerTick h) = (?s1, [Emit ToAll (TimeUpdate (timeLeft s - 1))])"
      using h False by (simp add: timerTick_running)
    have "currentQuestion (fst (run rnd ?s1 (replicate n (TimerTick h)))) = None \<and>
         pollResultsOf (snd (run rnd ?s1 (replicate n (TimerTick h)))) = [pollOf rnd cq qa]"
      using Suc.prems False by (intro Suc.IH) (simp_all add: inv_tick_state)
    then show ?thesis
      by (simp add: fst_run_Cons snd_run_Cons st del: run.simps step.simps)
  qed
qed

lemma polls_only_by:
  assumes "pollResultsOf (snd (step rnd s e)) \<noteq> []"
  shows "(\<exists>h. e = TimerTick h \<and> h \<in> set (intervals s) \<and> timeLeft s \<le> 1) \<or>
         (\<exists>socketId d cq qa. e = SubmitAnswer socketId d \<and> currentQuestion s = Some cq \<and>
            qid cq = questionId d \<and> map_of (answers s) (questionId d) = Some qa \<and>
            map_of qa (studentName d) = None \<and> totalStudents s \<le> length qa + 1)"
proof (cases e)
  case (SubmitAnswer socketId d)
  show ?thesis
  proof (cases "currentQuestion s")
    case None
    then show ?thesis using assms SubmitAnswer by (simp add: submitAnswer_ignored)
  next
    case (Some cq)
    show ?thesis
    proof (cases "qid cq = questionId d \<and> (\<exists>qa. map_of (answers s) (questionId d) = Some qa \<and>
                   map_of qa (studentName d) = None)")
      case True
      then obtain qa where qa: "qid cq = questionId d" "map_of (answers s) (questionId d) = Some qa"
        "map_of qa (studentName d) = None" by blast
      note acc = submitAnswer_accepted [OF Some qa, of rnd]
      have "totalStudents s \<le> length qa + 1"
        using assms SubmitAnswer acc by (auto split: if_splits)
      then show ?thesis using SubmitAnswer Some qa by blast
    next
      case False
      then have "submitAnswer rnd d s = (s, [])"
        using Some by (intro submitAnswer_ignored) (cases "map_of (answers s) (questionId d)", auto)
      then show ?thesis using assms SubmitAnswer by simp
    qed
  qed
next
  case (TimerTick h)
  then show ?thesis using assms
    by (auto simp: timerTick_def Let_def split: if_splits)
next
  case (StartQuestion socketId q)
  then show ?thesis using assms fates_startQuestion [of socketId q s]
    by (auto simp: pollNumbers_def)
qed (use assms in \<open>auto simp: teacherJoin_def studentJoin_def chatMessage_def kickStudent_def
       disconnect_def Let_def split: option.splits\<close>)

subsection \<open>C1: pollResults once per question\<close>

lemma run_aliceAnswered:
  "fst (run halfUpPercent init
     [StudentJoin ''s1'' ''Alice'', StudentJoin ''s2'' ''Bob'', StartQuestion ''t'' question1,
      SubmitAnswer ''s1'' aliceA]) = aliceAnswered"
  "snd (run halfUpPercent init
     [StudentJoin ''s1'' ''Alice'', StudentJoin ''s2'' ''Bob'', StartQuestion ''t'' question1,
      SubmitAnswer ''s1'' aliceA]) =
     [JoinRoom ''s1'' ''students'', Emit ToAll (ParticipantsUpdate [''Alice'']),
      JoinRoom ''s2'' ''students'', Emit ToAll (ParticipantsUpdate [''Alice'', ''Bob'']),
      Emit (ToRoom ''students'') (QuestionStarted (numbered question1 1)),
      Emit ToAll (TimeUpdate 5),
      Emit (ToRoom ''teachers'') (QuestionStatus False)]"
  by (simp_all add: aliceAnswered_eq twoStudentsOpen_eq handler_defs question1_def aliceA_def)

lemma calculateResults_aliceOnly [simp]:
  "calculateResults halfUpPercent (qoptions question1) [(''Alice'', ''A'')] =
     [\<lparr>option' = ''A'', count = 1, percentage = 100\<rparr>,
      \<lparr>option' = ''B'', count = 0, percentage = 0\<rparr>]"
  by (simp add: calculateResults_eq aggregateSpec_def firstOccurrences_def halfUpPercent_def
        question1_def)

text \<open>
  C1, as stated: every started question has exactly one run of the closure procedure,
  also when a permitted \<open>startQuestion\<close> arrives while the question is still open. This
  fails: \<open>startQuestion\<close> overwrites \<open>currentQuestion\<close> and clears the interval without
  calling \<open>endQuestion\<close>. In the run below Alice joins, question 1 is started, Alice is
  removed (so question 1 counts as complete with nothing answered), question 2 is started
  and answered. Two questions have been started, the session is idle with no interval
  left, and the only \<open>pollResults\<close> published carries the number 2.
\<close>

theorem replaced_question_never_published:
  "questionNumber (fst (run halfUpPercent init
     [StudentJoin ''s1'' ''Alice'', StartQuestion ''t'' question1, KickStudent ''t'' ''Alice'',
      StartQuestion ''t'' question2, SubmitAnswer ''s9'' malloryQ2])) = 2 \<and>
   currentQuestion (fst (run halfUpPercent init
     [StudentJoin ''s1'' ''Alice'', StartQuestion ''t'' question1, KickStudent ''t'' ''Alice'',
      StartQuestion ''t'' question2, SubmitAnswer ''s9'' malloryQ2])) = None \<and>
   intervals (fst (run halfUpPercent init
     [StudentJoin ''s1'' ''Alice'', StartQuestion ''t'' question1, KickStudent ''t'' ''Alice'',
      StartQuestion ''t'' question2, SubmitAnswer ''s9'' malloryQ2])) = [] \<and>
   pollNumbers (snd (run halfUpPercent init
     [StudentJoin ''s1'' ''Alice'', StartQuestion ''t'' question1, KickStudent ''t'' ''Alice'',
      StartQuestion ''t'' question2, SubmitAnswer ''s9'' malloryQ2])) = [2]"
  by (simp add: handler_defs question1_def question2_def malloryQ2_def pollNumbers_def)

text \<open>
  C1, amended: along every run of events from the initial state, every started question
  (the numbers \<open>1 .. questionNumber\<close>) meets exactly one of three fates: its
  \<open>pollResults\<close> has been published, exactly once; or it was overwritten by a permitted
  \<open>startQuestion\<close> while it was still the current question, and no \<open>pollResults\<close> is
  published for it; or it is still open. In particular no question has its \<open>pollResults\<close>
  published twice. A question that is still open is closed, with its \<open>pollResults\<close>
  published once, by the ticks of its countdown if nothing else happens first.
\<close>

theorem started_question_fates:
  "distinct (pollNumbers (snd (run rnd init es)) @ replacedNumbers rnd init es @
             openNumber (fst (run rnd init es))) \<and>
   set (pollNumbers (snd (run rnd init es)) @ replacedNumbers rnd init es @
        openNumber (fst (run rnd init es))) = {1 .. questionNumber (fst (run rnd init es))} \<and>
   (\<forall>cq. currentQuestion (fst (run rnd init es)) = Some cq \<longrightarrow>
      (\<exists>h qa. questionTimer (fst (run rnd init es)) = Some h \<and>
         map_of (answers (fst (run rnd init es))) (qid cq) = Some qa \<and>
         currentQuestion (fst (run rnd (fst (run rnd init es))
            (replicate (nat (max 1 (timeLeft (fst (run rnd init es))))) (TimerTick h)))) = None \<and>
         pollResultsOf (snd (run rnd (fst (run rnd init es))
            (replicate (nat (max 1 (timeLeft (fst (run rnd init es))))) (TimerTick h)))) =
           [pollOf rnd cq qa]))"
proof -
  let ?s = "fst (run rnd init es)"
  have r: "reachable rnd ?s" by (rule reachable_run [OF reachable_init])
  then have i: "inv ?s" by (rule reachable_inv)
  have o: "openNumber init = []" "questionNumber init = 0"
    by (simp_all add: openNumber_def init_def)
  have "{0 <.. questionNumber ?s} = {1 .. questionNumber ?s}" by auto
  with fates_run [OF inv_init, of rnd es]
  have a: "distinct (pollNumbers (snd (run rnd init es)) @ replacedNumbers rnd init es @
             openNumber ?s)"
    "set (pollNumbers (snd (run rnd init es)) @ replacedNumbers rnd init es @
        openNumber ?s) = {1 .. questionNumber ?s}"
    by (simp_all add: o)
  have b: "\<exists>h qa. questionTimer ?s = Some h \<and> map_of (answers ?s) (qid cq) = Some qa \<and>
         currentQuestion (fst (run rnd ?s
            (replicate (nat (max 1 (timeLeft ?s))) (TimerTick h)))) = None \<and>
         pollResultsOf (snd (run rnd ?s
            (replicate (nat (max 1 (timeLeft ?s))) (TimerTick h)))) = [pollOf rnd cq qa]"
    if c: "currentQuestion ?s = Some cq" for cq
  proof -
    from i c obtain h qa where hq: "questionTimer ?s = Some h" "map_of (answers ?s) (qid cq) = Some qa"
      by (auto simp: inv_def split: option.splits)
    from countdown_closes [OF i c hq refl, of rnd] hq show ?thesis by blast
  qed
  from a b show ?thesis by blast
qed

theorem started_question_fates_witness:
  "currentQuestion (fst (run halfUpPercent init
     [StudentJoin ''s1'' ''Alice'', StudentJoin ''s2'' ''Bob'', StartQuestion ''t'' question1,
      SubmitAnswer ''s1'' aliceA])) = Some (numbered question1 1) \<and>
   pollResultsOf (snd (run halfUpPercent aliceAnswered (replicate 5 (TimerTick 0)))) =
     [\<lparr>results = [\<lparr>option' = ''A'', count = 1, percentage = 100\<rparr>,
                  \<lparr>option' = ''B'', count = 0, percentage = 0\<rparr>],
       pr_questionNumber = 1, pr_questionId = ''q1'', pr_questionText = ''Pick one''\<rparr>]"
proof -
  let ?es = "[StudentJoin ''s1'' ''Alice'', StudentJoin ''s2'' ''Bob'', StartQuestion ''t'' question1,
      SubmitAnswer ''s1'' aliceA]"
  note t = started_question_fates [of halfUpPercent ?es, unfolded run_aliceAnswered]
  have c: "currentQuestion aliceAnswered = Some (numbered question1 1)"
    "questionTimer aliceAnswered = Some 0"
    "map_of (answers aliceAnswered) (qid (numbered question1 1)) = Some [(''Alice'', ''A'')]"
    "nat (max 1 (timeLeft aliceAnswered)) = 5"
    by (simp_all add: aliceAnswered_eq twoStudentsOpen_eq question1_def)
  note t3 = t [THEN conjunct2, THEN conjunct2, rule_format, OF c(1)]
  then obtain h qa where hq: "questionTimer aliceAnswered = Some h"
    "map_of (answers aliceAnswered) (qid (numbered question1 1)) = Some qa"
    "pollResultsOf (snd (run halfUpPercent aliceAnswered
        (replicate (nat (max 1 (timeLeft aliceAnswered))) (TimerTick h)))) =
       [pollOf halfUpPercent (numbered question1 1) qa]"
    by blast
  have "h = 0" "qa = [(''Alice'', ''A'')]"
    using hq(1,2) c(2,3) by simp_all
  with hq(3) have "pollResultsOf (snd (run halfUpPercent aliceAnswered (replicate 5 (TimerTick 0)))) =
           [pollOf halfUpPercent (numbered question1 1) [(''Alice'', ''A'')]]"
    by (simp only: c(4))
  moreover have "qtext question1 = ''Pick one''" "qid question1 = ''q1''"
    by (simp_all add: question1_def)
  ultimately show ?thesis
    by (simp add: run_aliceAnswered c pollOf_def del: run.simps)
qed

subsection \<open>C10: removals and disconnects never close a question\<close>

lemma bobKicked_eq:
  "fst (kickStudent ''Bob'' aliceAnswered) =
     aliceAnswered\<lparr>participants := [(''s1'', \<lparr>name = ''Alice'', role = Student\<rparr>)]\<rparr>"
  by (simp add: aliceAnswered_eq twoStudentsOpen_eq kickStudent_def Let_def)

lemma replaced_never_polled:
  assumes "inv s" and "currentQuestion s = Some cq" and "isQuestionComplete s"
  shows "pollResultsOf (snd (startQuestion socketId q s)) = [] \<and>
         qnumber cq \<notin> set (pollNumbers (snd (run rnd (fst (startQuestion socketId q s)) es)))"
proof -
  let ?s1 = "fst (startQuestion socketId q s)"
  have p: "currentQuestion s = None \<or> isQuestionComplete s" using assms(3) by simp
  have i1: "inv ?s1" using assms(1) by (rule inv_startQuestion)
  have n: "qnumber cq = questionNumber s"
    using assms(1,2) by (simp add: inv_def)
  have s1: "openNumber ?s1 = [questionNumber s + 1]" "questionNumber ?s1 = questionNumber s + 1"
    "pollResultsOf (snd (startQuestion socketId q s)) = []"
    by (simp_all add: startQuestion_success [OF p] openNumber_def)
  from fates_run [OF i1, of rnd es]
  have "set (pollNumbers (snd (run rnd ?s1 es))) \<subseteq>
          set (openNumber ?s1) \<union> {questionNumber ?s1 <.. questionNumber (fst (run rnd ?s1 es))}"
    by auto
  then have "qnumber cq \<notin> set (pollNumbers (snd (run rnd ?s1 es)))"
    unfolding s1 n by auto
  with s1(3) show ?thesis by simp
qed

text \<open>
  C10, as stated: after a removal has made the open question complete, \<open>pollResults\<close> is
  emitted only when the countdown later expires, or not at all if a new question is
  started first. This fails: a later accepted submission closes the question as well. In
  the run below Alice has answered and Bob has not; Alice is removed, so the question,
  still open, counts as complete (one answer, one student); then Bob answers. His
  submission publishes the results of question 1 while five seconds are left on the
  countdown, with no tick and no new question in between.
\<close>

theorem removal_then_submission_closes:
  "\<not> isQuestionComplete aliceAnswered \<and>
   currentQuestion (fst (run halfUpPercent aliceAnswered [KickStudent ''t'' ''Alice''])) =
     Some (numbered question1 1) \<and>
   isQuestionComplete (fst (run halfUpPercent aliceAnswered [KickStudent ''t'' ''Alice''])) \<and>
   timeLeft (fst (run halfUpPercent aliceAnswered [KickStudent ''t'' ''Alice''])) = 5 \<and>
   pollNumbers (snd (run halfUpPercent aliceAnswered
     [KickStudent ''t'' ''Alice'', SubmitAnswer ''s2'' bobB])) = [1]"
  by (simp add: aliceAnswered_eq twoStudentsOpen_eq handler_defs question1_def bobB_def
        pollNumbers_def)

text \<open>
  C10, amended: neither \<open>kickStudent\<close> nor \<open>disconnect\<close> runs the closure procedure,
  whether or not the removal makes the open question complete: they change nothing but
  the participant map (the question stays open, its answers, \<open>timeLeft\<close> and interval
  are untouched) and emit no \<open>pollResults\<close>. A \<open>pollResults\<close> is emitted only by a
  tick of the countdown that brings \<open>timeLeft\<close> to zero or below, or by an accepted
  submission after which the answer map has at least as many entries as there are
  students. If a new question is started first, which is permitted once the old one
  counts as complete, the start emits no \<open>pollResults\<close> and none is ever emitted for
  the old question afterwards.
\<close>

theorem removal_never_closes:
  "fst (kickStudent n s) = s\<lparr>participants := participants (fst (kickStudent n s))\<rparr> \<and>
   pollResultsOf (snd (kickStudent n s)) = [] \<and>
   fst (disconnect socketId s) = s\<lparr>participants := participants (fst (disconnect socketId s))\<rparr> \<and>
   pollResultsOf (snd (disconnect socketId s)) = [] \<and>
   (\<forall>e. pollResultsOf (snd (step rnd s e)) \<noteq> [] \<longrightarrow>
      (\<exists>h. e = TimerTick h \<and> h \<in> set (intervals s) \<and> timeLeft s \<le> 1) \<or>
      (\<exists>socketId d cq qa. e = SubmitAnswer socketId d \<and> currentQuestion s = Some cq \<and>
         qid cq = questionId d \<and> map_of (answers s) (questionId d) = Some qa \<and>
         map_of qa (studentName d) = None \<and> totalStudents s \<le> length qa + 1)) \<and>
   (\<forall>cq socketId q es. reachable rnd s \<and> currentQuestion s = Some cq \<and> isQuestionComplete s \<longrightarrow>
      pollResultsOf (snd (startQuestion socketId q s)) = [] \<and>
      qnumber cq \<notin> set (pollNumbers (snd (run rnd (fst (startQuestion socketId q s)) es))))"
proof -
  have k: "pollResultsOf (snd (kickStudent n s)) = []"
    by (simp add: kickStudent_def Let_def split: option.splits prod.splits)
  have d: "pollResultsOf (snd (disconnect socketId s)) = []"
    by (simp add: disconnect_def Let_def)
  have o: "\<forall>e. pollResultsOf (snd (step rnd s e)) \<noteq> [] \<longrightarrow>
      (\<exists>h. e = TimerTick h \<and> h \<in> set (intervals s) \<and> timeLeft s \<le> 1) \<or>
      (\<exists>socketId d cq qa. e = SubmitAnswer socketId d \<and> currentQuestion s = Some cq \<and>
         qid cq = questionId d \<and> map_of (answers s) (questionId d) = Some qa \<and>
         map_of qa (studentName d) = None \<and> totalStudents s \<le> length qa + 1)"
    using polls_only_by [of rnd s] by blast
  have r: "\<forall>cq socketId q es. reachable rnd s \<and> currentQuestion s = Some cq \<and> isQuestionComplete s \<longrightarrow>
      pollResultsOf (snd (startQuestion socketId q s)) = [] \<and>
      qnumber cq \<notin> set (pollNumbers (snd (run rnd (fst (startQuestion socketId q s)) es)))"
    using replaced_never_polled [OF reachable_inv] by blast
  from k d o r kickStudent_frame [of n s] disconnect_frame [of socketId s]
  show ?thesis by blast
qed

theorem removal_never_closes_witness:
  "\<not> isQuestionComplete aliceAnswered \<and>
   isQuestionComplete (fst (kickStudent ''Bob'' aliceAnswered)) \<and>
   currentQuestion (fst (kickStudent ''Bob'' aliceAnswered)) = Some (numbered question1 1) \<and>
   pollResultsOf (snd (kickStudent ''Bob'' aliceAnswered)) = [] \<and>
   reachable halfUpPercent (fst (kickStudent ''Bob'' aliceAnswered)) \<and>
   pollResultsOf (snd (startQuestion ''t'' question2 (fst (kickStudent ''Bob'' aliceAnswered)))) = [] \<and>
   1 \<notin> set (pollNumbers (snd (run halfUpPercent
          (fst (startQuestion ''t'' question2 (fst (kickStudent ''Bob'' aliceAnswered))))
          (replicate 5 (TimerTick 1))))) \<and>
   pollResultsOf (snd (step halfUpPercent (fst (kickStudent ''Bob'' aliceAnswered))
       (SubmitAnswer ''s3'' carolB))) \<noteq> []"
proof -
  let ?s = "fst (kickStudent ''Bob'' aliceAnswered)"
  note t = removal_never_closes [of "''Bob''" aliceAnswered, where rnd = halfUpPercent]
  note u = removal_never_closes [of _ ?s, where rnd = halfUpPercent]
  have re: "reachable halfUpPercent ?s"
    using reachable_step [OF reachable_aliceAnswered, of "KickStudent ''t'' ''Bob''"] by simp
  have c: "currentQuestion ?s = Some (numbered question1 1)" "isQuestionComplete ?s"
    "\<not> isQuestionComplete aliceAnswered"
    by (simp_all add: bobKicked_eq)
       (simp_all add: aliceAnswered_eq twoStudentsOpen_eq isQuestionComplete_def
          totalStudents_def question1_def)
  have k: "pollResultsOf (snd (kickStudent ''Bob'' aliceAnswered)) = []"
    using t by blast
  have "pollResultsOf (snd (startQuestion ''t'' question2 ?s)) = [] \<and>
        qnumber (numbered question1 1) \<notin> set (pollNumbers (snd (run halfUpPercent
          (fst (startQuestion ''t'' question2 ?s)) (replicate 5 (TimerTick 1)))))"
    using u re c(1,2) by blast
  moreover have "pollResultsOf (snd (step halfUpPercent ?s (SubmitAnswer ''s3'' carolB))) \<noteq> []"
    by (simp add: bobKicked_eq)
       (simp add: aliceAnswered_eq twoStudentsOpen_eq handler_defs question1_def carolB_def)
  ultimately show ?thesis
    using c k re by (simp del: run.simps)
qed

subsection \<open>C6: a permitted startQuestion\<close>

text \<open>
  C6: on every permitted \<open>startQuestion(q)\<close> (no question open, or the open one
  complete) the sequence counter grows by exactly one; the current question is \<open>q\<close>
  with the new counter value attached as its question number; \<open>answers\<close> maps \<open>q.id\<close>
  to an empty map and \<open>questionHistory\<close> maps it to the new number; \<open>timeLeft\<close> is
  \<open>q.timeLimit\<close>; a fresh interval is the one and only active interval; and the handler
  emits, in this order, \<open>questionStarted\<close> with the numbered question to the room of the
  students, \<open>timeUpdate\<close> with the time limit to everyone and
  \<open>questionStatus {canAskNew: false}\<close> to the room of the teachers. The countdown
  runs: a tick of the new interval takes one second off \<open>timeLeft\<close> and publishes it,
  or, when that brings \<open>timeLeft\<close> to zero or below, also ends the question; left
  alone, the ticks end the question and publish its results under the new number.
  Whatever events follow, the counter never falls below the number just given, so the
  numbers of the questions started are strictly increasing.
\<close>

theorem startQuestion_permitted:
  assumes "reachable rnd s" and "currentQuestion s = None \<or> isQuestionComplete s"
  shows "questionNumber (fst (startQuestion socketId q s)) = questionNumber s + 1 \<and>
         currentQuestion (fst (startQuestion socketId q s)) =
           Some \<lparr>qid = qid q, qtext = qtext q, qoptions = qoptions q,
                 qtimeLimit = qtimeLimit q, qnumber = questionNumber s + 1\<rparr> \<and>
         map_of (answers (fst (startQuestion socketId q s))) (qid q) = Some [] \<and>
         map_of (questionHistory (fst (startQuestion socketId q s))) (qid q) =
           Some (questionNumber s + 1) \<and>
         timeLeft (fst (startQuestion socketId q s)) = qtimeLimit q \<and>
         questionTimer (fst (startQuestion socketId q s)) = Some (nextHandle s) \<and>
         intervals (fst (startQuestion socketId q s)) = [nextHandle s] \<and>
         snd (startQuestion socketId q s) =
           [Emit (ToRoom ''students'')
              (QuestionStarted \<lparr>qid = qid q, qtext = qtext q, qoptions = qoptions q,
                 qtimeLimit = qtimeLimit q, qnumber = questionNumber s + 1\<rparr>),
            Emit ToAll (TimeUpdate (qtimeLimit q)),
            Emit (ToRoom ''teachers'') (QuestionStatus False)] \<and>
         (1 < qtimeLimit q \<longrightarrow>
            timerTick rnd (nextHandle s) (fst (startQuestion socketId q s)) =
              ((fst (startQuestion socketId q s))\<lparr>timeLeft := qtimeLimit q - 1\<rparr>,
               [Emit ToAll (TimeUpdate (qtimeLimit q - 1))])) \<and>
         (qtimeLimit q \<le> 1 \<longrightarrow>
            timerTick rnd (nextHandle s) (fst (startQuestion socketId q s)) =
              ((fst (startQuestion socketId q s))
                 \<lparr>timeLeft := 0, intervals := [], currentQuestion := None\<rparr>,
               [Emit ToAll (TimeUpdate (qtimeLimit q - 1)),
                Emit ToAll (PollResults
                  \<lparr>results = calculateResults rnd (qoptions q) [],
                   pr_questionNumber = questionNumber s + 1,
                   pr_questionId = qid q, pr_questionText = qtext q\<rparr>),
                Emit (ToRoom ''teachers'') (QuestionStatus True)])) \<and>
         currentQuestion (fst (run rnd (fst (startQuestion socketId q s))
            (replicate (nat (max 1 (qtimeLimit q))) (TimerTick (nextHandle s))))) = None \<and>
         pollNumbers (snd (run rnd (fst (startQuestion socketId q s))
            (replicate (nat (max 1 (qtimeLimit q))) (TimerTick (nextHandle s))))) =
           [questionNumber s + 1] \<and>
         questionNumber (fst (startQuestion socketId q s))
           \<le> questionNumber (fst (run rnd (fst (startQuestion socketId q s)) es))"
proof -
  let ?s' = "fst (startQuestion socketId q s)"
  let ?cq = "\<lparr>qid = qid q, qtext = qtext q, qoptions = qoptions q,
                 qtimeLimit = qtimeLimit q, qnumber = questionNumber s + 1\<rparr>"
  have i: "inv s" using assms(1) by (rule reachable_inv)
  have i': "inv ?s'" using i by (rule inv_startQuestion)
  have st: "questionNumber ?s' = questionNumber s + 1"
    "currentQuestion ?s' = Some ?cq"
    "map_of (answers ?s') (qid q) = Some []"
    "map_of (questionHistory ?s') (qid q) = Some (questionNumber s + 1)"
    "timeLeft ?s' = qtimeLimit q"
    "questionTimer ?s' = Some (nextHandle s)"
    "intervals ?s' = [nextHandle s]"
    "snd (startQuestion socketId q s) =
           [Emit (ToRoom ''students'') (QuestionStarted ?cq),
            Emit ToAll (TimeUpdate (qtimeLimit q)),
            Emit (ToRoom ''teachers'') (QuestionStatus False)]"
    unfolding startQuestion_success [OF assms(2)]
    using inv_intervals_cleared [OF i]
    by (simp_all add: update_conv' numbered_def)
  have ans: "map_of (answers ?s') (qid ?cq) = Some []"
    using st(3) by simp
  have run: "1 < qtimeLimit q \<longrightarrow>
            timerTick rnd (nextHandle s) ?s' =
              (?s'\<lparr>timeLeft := qtimeLimit q - 1\<rparr>, [Emit ToAll (TimeUpdate (qtimeLimit q - 1))])"
    using timerTick_running [of "nextHandle s" ?s' rnd] st(5,7) by simp
  have ex: "qtimeLimit q \<le> 1 \<longrightarrow>
            timerTick rnd (nextHandle s) ?s' =
              (?s'\<lparr>timeLeft := 0, intervals := [], currentQuestion := None\<rparr>,
               [Emit ToAll (TimeUpdate (qtimeLimit q - 1)),
                Emit ToAll (PollResults
                  \<lparr>results = calculateResults rnd (qoptions q) [],
                   pr_questionNumber = questionNumber s + 1,
                   pr_questionId = qid q, pr_questionText = qtext q\<rparr>),
                Emit (ToRoom ''teachers'') (QuestionStatus True)])"
    using timerTick_expiring [OF i' st(2) st(6) ans, of rnd] st(5)
    by (simp add: closing_def pollOf_def)
  have cd: "currentQuestion (fst (run rnd ?s'
            (replicate (nat (max 1 (qtimeLimit q))) (TimerTick (nextHandle s))))) = None \<and>
         pollNumbers (snd (run rnd ?s'
            (replicate (nat (max 1 (qtimeLimit q))) (TimerTick (nextHandle s))))) =
           [questionNumber s + 1]"
    using countdown_closes [OF i' st(2) st(6) ans refl, of rnd] st(5)
    by (simp add: pollNumbers_def pollOf_def del: run.simps)
  have mono: "questionNumber ?s' \<le> questionNumber (fst (run rnd ?s' es))"
    by (rule questionNumber_run)
  from st run ex cd mono show ?thesis by blast
qed

theorem startQuestion_permitted_witness:
  "reachable halfUpPercent (fst (run halfUpPercent init [StudentJoin ''s1'' ''Alice'']))
   \<and> (currentQuestion (fst (run halfUpPercent init [StudentJoin ''s1'' ''Alice''])) = None
      \<or> isQuestionComplete (fst (run halfUpPercent init [StudentJoin ''s1'' ''Alice''])))
   \<and> questionNumber (fst (startQuestion ''t'' question1
        (fst (run halfUpPercent init [StudentJoin ''s1'' ''Alice''])))) = 1
   \<and> snd (startQuestion ''t'' question1
        (fst (run halfUpPercent init [StudentJoin ''s1'' ''Alice'']))) =
       [Emit (ToRoom ''students'')
          (QuestionStarted \<lparr>qid = ''q1'', qtext = ''Pick one'', qoptions = [''A'', ''B''],
             qtimeLimit = 5, qnumber = 1\<rparr>),
        Emit ToAll (TimeUpdate 5),
        Emit (ToRoom ''teachers'') (QuestionStatus False)]
   \<and> (1::int) < qtimeLimit question1
   \<and> snd (timerTick halfUpPercent 0 (fst (startQuestion ''t'' question1
        (fst (run halfUpPercent init [StudentJoin ''s1'' ''Alice'']))))) =
       [Emit ToAll (TimeUpdate 4)]
   \<and> timeLeft (fst (timerTick halfUpPercent 0 (fst (startQuestion ''t'' question1
        (fst (run halfUpPercent init [StudentJoin ''s1'' ''Alice''])))))) = 4
   \<and> pollNumbers (snd (run halfUpPercent (fst (startQuestion ''t'' question1
        (fst (run halfUpPercent init [StudentJoin ''s1'' ''Alice'']))))
        (replicate 5 (TimerTick 0)))) = [1]"
proof -
  let ?s = "fst (run halfUpPercent init [StudentJoin ''s1'' ''Alice''])"
  have r: "reachable halfUpPercent ?s"
    by (rule reachable_run [OF reachable_init])
  have c: "currentQuestion ?s = None \<or> isQuestionComplete ?s"
    by (simp add: handler_defs)
  have q: "questionNumber ?s = 0" "nextHandle ?s = 0"
    by (simp_all add: handler_defs)
  have q1: "qtimeLimit question1 = 5" "qid question1 = ''q1''" "qtext question1 = ''Pick one''"
    "qoptions question1 = [''A'', ''B'']" "nat (max 1 (qtimeLimit question1)) = 5"
    by (simp_all add: question1_def)
  let ?s' = "fst (startQuestion ''t'' question1 ?s)"
  note t = startQuestion_permitted [OF r c, of "''t''" question1]
  have lt: "1 < qtimeLimit question1" by (simp add: q1)
  from t lt have tick: "timerTick halfUpPercent (nextHandle ?s) ?s' =
      (?s'\<lparr>timeLeft := qtimeLimit question1 - 1\<rparr>,
       [Emit ToAll (TimeUpdate (qtimeLimit question1 - 1))])"
    by blast
  have tl: "timeLeft (fst (timerTick halfUpPercent 0 ?s')) = 4"
    "snd (timerTick halfUpPercent 0 ?s') = [Emit ToAll (TimeUpdate 4)]"
    using tick by (simp_all add: q q1 del: run.simps)
  from t have a0: "questionNumber ?s' = questionNumber ?s + 1"
    and b0: "snd (startQuestion ''t'' question1 ?s) =
       [Emit (ToRoom ''students'')
          (QuestionStarted \<lparr>qid = qid question1, qtext = qtext question1,
             qoptions = qoptions question1, qtimeLimit = qtimeLimit question1,
             qnumber = questionNumber ?s + 1\<rparr>),
        Emit ToAll (TimeUpdate (qtimeLimit question1)),
        Emit (ToRoom ''teachers'') (QuestionStatus False)]"
    and p0: "pollNumbers (snd (run halfUpPercent ?s'
        (replicate (nat (max 1 (qtimeLimit question1))) (TimerTick (nextHandle ?s))))) =
           [questionNumber ?s + 1]"
    by blast+
  have a: "questionNumber ?s' = 1" using a0 by (simp add: q del: run.simps)
  have b: "snd (startQuestion ''t'' question1 ?s) =
       [Emit (ToRoom ''students'')
          (QuestionStarted \<lparr>qid = ''q1'', qtext = ''Pick one'', qoptions = [''A'', ''B''],
             qtimeLimit = 5, qnumber = 1\<rparr>),
        Emit ToAll (TimeUpdate 5),
        Emit (ToRoom ''teachers'') (QuestionStatus False)]"
    using b0 by (simp add: q q1 del: run.simps)
  have p: "pollNumbers (snd (run halfUpPercent ?s' (replicate 5 (TimerTick 0)))) = [1]"
    using p0 by (simp add: q q1 del: run.simps)
  show ?thesis
    using r c a b p tl lt by (simp del: run.simps)
qed

end
